theory Spec2Isabelle
  imports Complex_Main
begin

section \<open>Data model of \<open>abel/tools/center.py\<close>\<close>

text \<open>
  The module centres a 2D image around an origin.  The embedding follows the Python
  source function by function.

  \<^item> Coordinates (Python \<open>int\<close> or finite \<open>float\<close>) are exact rationals; their
    arithmetic is exact (floating-point rounding is not part of the model).
  \<^item> An image is a NumPy array of two dimensions: its rows as lists, its number of
    columns kept explicitly (an array may have no row and still have columns), and the
    identity of the memory buffer it reads (a view shares the buffer of its base).
  \<^item> The two axes are \<open>Vertical\<close> (axis 0, rows) and \<open>Horizontal\<close> (axis 1, columns).
  \<^item> Exceptions are values: a function that may raise returns \<open>error + result\<close>.
  \<^item> \<open>scipy.ndimage.shift\<close> and \<open>scipy.optimize.minimize\<close> are collaborators from
    outside the repository; the functions that call them take them as parameters.
\<close>

datatype axis = Vertical | Horizontal

record fit_result =
  success :: bool
  x :: rat
  message :: string

datatype error =
    ValueError string
  | TypeError string
  | KeyError string
  | RuntimeError string "fit_result option"

record 'a ndarray =
  buf :: nat
  ncols :: nat
  cells :: "'a list list"

definition nrows :: "'a ndarray \<Rightarrow> nat" where
  "nrows a = length (cells a)"

definition shape :: "'a ndarray \<Rightarrow> axis \<Rightarrow> nat" where
  "shape a ax = (case ax of Vertical \<Rightarrow> nrows a | Horizontal \<Rightarrow> ncols a)"

text \<open>Every row of an array has the array's number of columns.\<close>

definition rect :: "'a ndarray \<Rightarrow> bool" where
  "rect a = list_all (\<lambda>r. length r = ncols a) (cells a)"

text \<open>The element at row \<open>i\<close>, column \<open>j\<close> (used only inside the array's bounds).\<close>

definition cell :: "'a ndarray \<Rightarrow> nat \<Rightarrow> nat \<Rightarrow> 'a" where
  "cell a i j = cells a ! i ! j"

text \<open>Two arrays hold the same data (\<open>numpy.array_equal\<close>): same shape, same elements.\<close>

definition array_equal :: "'a ndarray \<Rightarrow> 'a ndarray \<Rightarrow> bool" where
  "array_equal a b = (ncols a = ncols b \<and> cells a = cells b)"

subsection \<open>Python numbers\<close>

text \<open>\<open>int(v)\<close> truncates towards zero; \<open>round(v)\<close> (Python 3) rounds half to even.\<close>

definition py_int :: "rat \<Rightarrow> int" where
  "py_int v = (if 0 \<le> v then \<lfloor>v\<rfloor> else \<lceil>v\<rceil>)"

definition py_round :: "rat \<Rightarrow> int" where
  "py_round v =
     (let f = \<lfloor>v\<rfloor>; d = v - of_int f in
      if d < 1 / 2 then f
      else if 1 / 2 < d then f + 1
      else if even f then f else f + 1)"

subsection \<open>Slices\<close>

text \<open>
  \<open>Slice start stop\<close> is Python's \<open>slice(start, stop)\<close> (step 1); \<open>None\<close> is an
  omitted bound.  On a sequence of length \<open>n\<close> a negative bound counts from the end and
  every bound is clipped to \<open>0..n\<close>, as \<open>slice.indices\<close> does.
\<close>

datatype slice = Slice "int option" "int option"

definition slice_index :: "nat \<Rightarrow> int \<Rightarrow> nat" where
  "slice_index n i = (if i < 0 then nat (i + int n) else min (nat i) n)"

fun slice_start :: "slice \<Rightarrow> nat \<Rightarrow> nat" where
  "slice_start (Slice lo hi) n = (case lo of None \<Rightarrow> 0 | Some i \<Rightarrow> slice_index n i)"

fun slice_stop :: "slice \<Rightarrow> nat \<Rightarrow> nat" where
  "slice_stop (Slice lo hi) n = (case hi of None \<Rightarrow> n | Some j \<Rightarrow> slice_index n j)"

definition slice_len :: "slice \<Rightarrow> nat \<Rightarrow> nat" where
  "slice_len s n = slice_stop s n - slice_start s n"

definition slice_list :: "slice \<Rightarrow> 'a list \<Rightarrow> 'a list" where
  "slice_list s xs = take (slice_len s (length xs)) (drop (slice_start s (length xs)) xs)"

abbreviation whole :: slice where
  "whole \<equiv> Slice None None"

subsection \<open>NumPy primitives\<close>

text \<open>
  \<open>a[s0, s1]\<close>: basic slicing returns a view, which reads the buffer of \<open>a\<close>.
\<close>

definition getitem :: "'a ndarray \<Rightarrow> slice \<times> slice \<Rightarrow> 'a ndarray" where
  "getitem a ss =
     a\<lparr>ncols := slice_len (snd ss) (ncols a),
       cells := map (slice_list (snd ss)) (slice_list (fst ss) (cells a))\<rparr>"

text \<open>
  The allocator state is the next unused buffer identifier; a function that creates an
  array takes the state and returns the array with the next state.
\<close>

definition np_copy :: "nat \<Rightarrow> 'a ndarray \<Rightarrow> 'a ndarray \<times> nat" where
  "np_copy h a = (a\<lparr>buf := h\<rparr>, Suc h)"

definition np_zeros_like :: "nat \<Rightarrow> 'a::zero ndarray \<Rightarrow> 'a ndarray \<times> nat" where
  "np_zeros_like h a =
     (\<lparr>buf = h, ncols = ncols a, cells = replicate (nrows a) (replicate (ncols a) 0)\<rparr>, Suc h)"

text \<open>
  \<open>numpy.pad(a, ((b0, a0), (b1, a1)), 'constant')\<close>: a new array with \<open>b0\<close> rows of
  zeros before and \<open>a0\<close> after, \<open>b1\<close> columns of zeros before and \<open>a1\<close> after.  A
  negative width raises \<open>ValueError\<close>.
\<close>

definition np_pad ::
  "nat \<Rightarrow> 'a::zero ndarray \<Rightarrow> (int \<times> int) \<times> (int \<times> int) \<Rightarrow> error + ('a ndarray \<times> nat)" where
  "np_pad h a pw =
     (case pw of ((b0, a0), (b1, a1)) \<Rightarrow>
        if b0 < 0 \<or> a0 < 0 \<or> b1 < 0 \<or> a1 < 0
        then Inl (ValueError ''index can't contain negative values'')
        else
          let w = nat b1 + ncols a + nat a1;
              blank = replicate w 0
          in Inr (\<lparr>buf = h, ncols = w,
                    cells = replicate (nat b0) blank
                          @ map (\<lambda>r. replicate (nat b1) 0 @ r @ replicate (nat a1) 0) (cells a)
                          @ replicate (nat a0) blank\<rparr>, Suc h))"

text \<open>
  Broadcasting of a value to a target shape, as an assignment \<open>out[...] = v\<close> does: on
  each axis the lengths agree or the value has length 1 (which is repeated); otherwise
  the assignment raises \<open>ValueError\<close>.
\<close>

definition broadcast_to :: "nat \<Rightarrow> nat \<Rightarrow> 'a ndarray \<Rightarrow> error + 'a list list" where
  "broadcast_to r c v =
     (if (nrows v = r \<or> nrows v = 1) \<and> (ncols v = c \<or> ncols v = 1)
      then
        let wide = map (\<lambda>row. if ncols v = c then row else replicate c (row ! 0)) (cells v)
        in Inr (if nrows v = r then wide else replicate r (wide ! 0))
      else Inl (ValueError ''could not broadcast input array''))"

text \<open>
  \<open>out[s0, s1] = v\<close>: writes into the buffer of \<open>out\<close>; the result is \<open>out\<close> after the
  assignment.
\<close>

definition setitem :: "'a ndarray \<Rightarrow> slice \<times> slice \<Rightarrow> 'a ndarray \<Rightarrow> error + 'a ndarray" where
  "setitem out ss v =
     (let r0 = slice_start (fst ss) (nrows out); rn = slice_len (fst ss) (nrows out);
          c0 = slice_start (snd ss) (ncols out); cn = slice_len (snd ss) (ncols out)
      in case broadcast_to rn cn v of
           Inl e \<Rightarrow> Inl e
         | Inr b \<Rightarrow>
             Inr (out\<lparr>cells :=
                    take r0 (cells out)
                  @ map (\<lambda>(row, new). take c0 row @ new @ drop (c0 + cn) row)
                        (zip (take rn (drop r0 (cells out))) b)
                  @ drop (r0 + rn) (cells out)\<rparr>))"

text \<open>
  \<open>scipy.ndimage.shift(a, d, order=k)\<close>: the interpolating shift, a collaborator.  It
  is a parameter \<open>sh\<close> that maps the rows, the shift per axis and the order to the
  rows of the result; the result is a new array.  SciPy accepts the spline orders 0 to 5.
\<close>

type_synonym 'a shift_fn = "'a list list \<Rightarrow> rat \<times> rat \<Rightarrow> int \<Rightarrow> 'a list list"

definition ndimage_shift ::
  "'a shift_fn \<Rightarrow> nat \<Rightarrow> 'a ndarray \<Rightarrow> rat \<times> rat \<Rightarrow> int \<Rightarrow> error + ('a ndarray \<times> nat)" where
  "ndimage_shift sh h a d k =
     (if k < 0 \<or> 5 < k then Inl (RuntimeError ''spline order not supported'' None)
      else Inr (\<lparr>buf = h, ncols = ncols a, cells = sh (cells a) d k\<rparr>, Suc h))"

text \<open>What the callers rely on: the collaborator returns rows of the lengths it was given.\<close>

definition shape_preserving :: "'a shift_fn \<Rightarrow> bool" where
  "shape_preserving sh = (\<forall>m d k. map length (sh m d k) = map length m)"

section \<open>\<open>set_center\<close>\<close>

text \<open>
  \<open>center_of(a)\<close>, the nested helper of \<open>set_center\<close>: \<open>(shape - 1) // 2\<close> on each
  axis (floor division, so an empty axis gives \<open>-1\<close>).
\<close>

definition center_of :: "'a ndarray \<Rightarrow> axis \<Rightarrow> int" where
  "center_of a ax = (int (shape a ax) - 1) div 2"

text \<open>
  The state of \<open>set_center\<close> after its first loop: the set \<open>axes\<close>, the arrays
  \<open>origin\<close>, \<open>subpixel\<close> and \<open>origin_\<close> (the complement, here \<open>p_mirror\<close>), and \<open>order\<close>.
\<close>

record prep =
  p_axes :: "axis set"
  p_origin :: "axis \<Rightarrow> int option"
  p_subpixel :: "axis \<Rightarrow> rat"
  p_mirror :: "axis \<Rightarrow> int option"
  p_order :: int

text \<open>
  The body of the loop \<open>for a in [0, 1]\<close> (source lines 230 to 245).  It runs for both
  axes whatever \<open>axes\<close> holds: \<open>axes\<close> only loses the axes whose coordinate is \<open>None\<close>.
\<close>

definition preprocess_axis ::
  "(axis \<Rightarrow> nat) \<Rightarrow> (axis \<Rightarrow> rat option) \<Rightarrow> int \<Rightarrow> axis \<Rightarrow> prep \<Rightarrow> prep" where
  "preprocess_axis shp raw order a s =
     (case raw a of
        None \<Rightarrow> s\<lparr>p_axes := p_axes s - {a}\<rparr>
      | Some v \<Rightarrow>
          let v1 = (if v < 0 then v + of_nat (shp a) else v);
              i = (if order \<noteq> 0 then py_int v1 else py_round v1);
              f = (if order \<noteq> 0 then v1 - of_int i else p_subpixel s a)
          in s\<lparr>p_origin := (p_origin s)(a := Some i),
                p_subpixel := (p_subpixel s)(a := f),
                p_mirror := (p_mirror s)(a := Some (int (shp a) - 1 - i))\<rparr>)"

text \<open>The entry of a pair \<open>(row, column)\<close> for an axis: \<open>p[a]\<close>.\<close>

definition component :: "'b \<times> 'b \<Rightarrow> axis \<Rightarrow> 'b" where
  "component p a = (case a of Vertical \<Rightarrow> fst p | Horizontal \<Rightarrow> snd p)"

text \<open>
  Source lines 223 to 248: the loop, then \<open>if np.all(subpixel == 0): order = 0\<close>.
\<close>

definition preprocess ::
  "'a ndarray \<Rightarrow> rat option \<times> rat option \<Rightarrow> axis set \<Rightarrow> int \<Rightarrow> prep" where
  "preprocess data origin axes order =
     (let s0 = \<lparr>p_axes = axes, p_origin = (\<lambda>a. None), p_subpixel = (\<lambda>a. 0),
                p_mirror = (\<lambda>a. None), p_order = order\<rparr>;
          s = fold (preprocess_axis (shape data) (component origin) order)
                [Vertical, Horizontal] s0
      in if p_subpixel s Vertical = 0 \<and> p_subpixel s Horizontal = 0
         then s\<lparr>p_order := 0\<rparr> else s)"

text \<open>
  A loop \<open>for a in axes\<close> that fills one entry per axis from \<open>origin[a]\<close> and
  \<open>origin_[a]\<close>, the other entries keeping their default.  Arithmetic on a \<open>None\<close>
  coordinate would raise \<open>TypeError\<close>.
\<close>

definition axis_entry :: "prep \<Rightarrow> 'b \<Rightarrow> (int \<Rightarrow> int \<Rightarrow> 'b) \<Rightarrow> axis \<Rightarrow> error + 'b" where
  "axis_entry s dflt f a =
     (if a \<in> p_axes s then
        (case p_origin s a of
           None \<Rightarrow> Inl (TypeError ''unsupported operand type(s): NoneType'')
         | Some c \<Rightarrow>
             (case p_mirror s a of
                None \<Rightarrow> Inl (TypeError ''unsupported operand type(s): NoneType'')
              | Some m \<Rightarrow> Inr (f c m)))
      else Inr dflt)"

definition both_axes :: "(axis \<Rightarrow> error + 'b) \<Rightarrow> error + ('b \<times> 'b)" where
  "both_axes g =
     (case g Vertical of
        Inl e \<Rightarrow> Inl e
      | Inr v \<Rightarrow> (case g Horizontal of Inl e \<Rightarrow> Inl e | Inr w \<Rightarrow> Inr (v, w)))"

text \<open>
  Source lines 268 to 274, for one axis with centre \<open>c\<close>, length \<open>n\<close> and origin \<open>c0\<close>:
  the source region and the destination region of the whole-pixel shift.
\<close>

definition whole_pixel_regions :: "int \<Rightarrow> nat \<Rightarrow> int \<Rightarrow> slice \<times> slice" where
  "whole_pixel_regions c n c0 =
     (let delta = c - c0; dpos = max 0 delta; dneg = max 0 (- delta)
      in (Slice (Some dneg) (Some (int n - dpos)), Slice (Some dpos) (Some (int n - dneg))))"

text \<open>Source lines 264 to 276: \<open>crop == 'maintain_size'\<close>, whole-pixel shift.\<close>

definition maintain_size_whole ::
  "nat \<Rightarrow> 'a::zero ndarray \<Rightarrow> prep \<Rightarrow> error + ('a ndarray \<times> nat)" where
  "maintain_size_whole h data s =
     (case both_axes (\<lambda>a. axis_entry s (whole, whole)
                 (\<lambda>c0 m. whole_pixel_regions (center_of data a) (shape data a) c0) a) of
        Inl e \<Rightarrow> Inl e
      | Inr ((src0, dst0), (src1, dst1)) \<Rightarrow>
          (case np_zeros_like h data of (out, h1) \<Rightarrow>
             (case setitem out (dst0, dst1) (getitem data (src0, src1)) of
                Inl e \<Rightarrow> Inl e
              | Inr out1 \<Rightarrow> Inr (out1, h1))))"

text \<open>Source lines 258 to 263: \<open>crop == 'maintain_size'\<close>, fractional shift.\<close>

definition fractional_delta :: "'a ndarray \<Rightarrow> prep \<Rightarrow> axis \<Rightarrow> rat" where
  "fractional_delta data s a =
     (if a \<in> p_axes s then
        (case p_origin s a of
           None \<Rightarrow> 0
         | Some c0 \<Rightarrow> of_int (center_of data a) - (of_int c0 + p_subpixel s a))
      else 0)"

definition maintain_size_fractional ::
  "'a shift_fn \<Rightarrow> nat \<Rightarrow> 'a::zero ndarray \<Rightarrow> prep \<Rightarrow> error + ('a ndarray \<times> nat)" where
  "maintain_size_fractional sh h data s =
     (case np_pad h data ((1, 1), (1, 1)) of
        Inl e \<Rightarrow> Inl e
      | Inr (padded, h1) \<Rightarrow>
          (case ndimage_shift sh h1 padded
                  (fractional_delta data s Vertical, fractional_delta data s Horizontal)
                  (p_order s) of
             Inl e \<Rightarrow> Inl e
           | Inr (shifted, h2) \<Rightarrow>
               Inr (getitem shifted (Slice (Some 1) (Some (- 1)), Slice (Some 1) (Some (- 1))),
                    h2)))"

text \<open>
  The body of the second loop \<open>for a in [0, 1]\<close> (source lines 292 to 301).  A non-zero
  \<open>subpixel[a]\<close> was set together with \<open>origin[a]\<close> and \<open>origin_[a]\<close>, so the updates
  never meet \<open>None\<close>.
\<close>

definition subpixel_cut ::
  "string \<Rightarrow> axis \<Rightarrow> prep \<times> (axis \<Rightarrow> slice) \<Rightarrow> prep \<times> (axis \<Rightarrow> slice)" where
  "subpixel_cut crop a sc =
     (case sc of (s, cuts) \<Rightarrow>
        if p_subpixel s a \<noteq> 0 then
          (if crop = ''valid_region''
           then (s\<lparr>p_mirror := (p_mirror s)(a := map_option (\<lambda>m. m - 1) (p_mirror s a))\<rparr>,
                 cuts(a := Slice (Some 1) (Some (- 1))))
           else (s\<lparr>p_origin := (p_origin s)(a := map_option (\<lambda>c. c + 1) (p_origin s a))\<rparr>,
                 cuts))
        else (s, cuts(a := Slice (Some 1) None)))"

text \<open>Source lines 284 to 302: the subpixel shift done first for the other crop options.\<close>

definition subpixel_shift ::
  "'a shift_fn \<Rightarrow> nat \<Rightarrow> 'a::zero ndarray \<Rightarrow> string \<Rightarrow> prep \<Rightarrow>
     error + ('a ndarray \<times> prep \<times> nat)" where
  "subpixel_shift sh h data crop s =
     (if p_order s \<noteq> 0 then
        (case np_pad h data ((1, 1), (1, 1)) of
           Inl e \<Rightarrow> Inl e
         | Inr (padded, h1) \<Rightarrow>
             (case ndimage_shift sh h1 padded
                     (- p_subpixel s Vertical, - p_subpixel s Horizontal) (p_order s) of
                Inl e \<Rightarrow> Inl e
              | Inr (shifted, h2) \<Rightarrow>
                  (case fold (subpixel_cut crop) [Vertical, Horizontal] (s, \<lambda>a. whole) of
                     (s1, cuts) \<Rightarrow>
                       Inr (getitem
                              (getitem shifted (Slice None (Some (- 1)), Slice None (Some (- 1))))
                              (cuts Vertical, cuts Horizontal),
                            s1, h2))))
      else Inr (data, s, h))"

text \<open>Source lines 303 to 314: \<open>crop == 'valid_region'\<close>.\<close>

definition crop_valid_region ::
  "nat \<Rightarrow> 'a ndarray \<Rightarrow> prep \<Rightarrow> error + ('a ndarray \<times> nat)" where
  "crop_valid_region h data s =
     (case both_axes (axis_entry s whole
                 (\<lambda>c0 m. let d = min c0 m in Slice (Some (c0 - d)) (Some (c0 + d + 1)))) of
        Inl e \<Rightarrow> Inl e
      | Inr src \<Rightarrow> Inr (np_copy h (getitem data src)))"

text \<open>Source lines 315 to 326: \<open>crop == 'maintain_data'\<close>.\<close>

definition crop_maintain_data ::
  "nat \<Rightarrow> 'a::zero ndarray \<Rightarrow> prep \<Rightarrow> error + ('a ndarray \<times> nat)" where
  "crop_maintain_data h data s =
     (case both_axes (axis_entry s (0, 0) (\<lambda>c0 m. let d = max c0 m in (d - c0, d - m))) of
        Inl e \<Rightarrow> Inl e
      | Inr pw \<Rightarrow> np_pad h data pw)"

text \<open>
  \<open>set_center(data, origin, crop, axes, order)\<close>, with the collaborator \<open>sh\<close> and the
  allocator state \<open>h\<close>.  The deprecated argument \<open>center\<close> and \<open>verbose\<close> (printing only)
  are left out.
\<close>

definition set_center ::
  "'a shift_fn \<Rightarrow> nat \<Rightarrow> 'a::zero ndarray \<Rightarrow> rat option \<times> rat option \<Rightarrow> string \<Rightarrow>
     axis set \<Rightarrow> int \<Rightarrow> error + ('a ndarray \<times> nat)" where
  "set_center sh h data origin crop axes order =
     (let s = preprocess data origin axes order in
      if crop = ''maintain_size'' then
        (if p_order s \<noteq> 0 then maintain_size_fractional sh h data s
         else maintain_size_whole h data s)
      else
        (case subpixel_shift sh h data crop s of
           Inl e \<Rightarrow> Inl e
         | Inr (data1, s1, h1) \<Rightarrow>
             if crop = ''valid_region'' then crop_valid_region h1 data1 s1
             else if crop = ''maintain_data'' then crop_maintain_data h1 data1 s1
             else Inl (ValueError ''Invalid crop option'')))"

section \<open>Origin estimators\<close>

text \<open>
  An estimator returns the origin as a pair of numbers (row, column).
  \<open>find_origin_by_center_of_image\<close> is source line 422.
\<close>

definition find_origin_by_center_of_image :: "'a ndarray \<Rightarrow> rat \<times> rat" where
  "find_origin_by_center_of_image data =
     (of_int (int (nrows data) div 2), of_int (int (ncols data) div 2))"

text \<open>\<open>a.sum(axis=1)\<close> adds along each row, \<open>a.sum(axis=0)\<close> along each column.\<close>

definition sum_axis1 :: "'a::comm_monoid_add ndarray \<Rightarrow> 'a list" where
  "sum_axis1 a = map sum_list (cells a)"

definition sum_axis0 :: "'a::comm_monoid_add ndarray \<Rightarrow> 'a list" where
  "sum_axis0 a = map (\<lambda>j. sum_list (map (\<lambda>r. r ! j) (cells a))) [0..<ncols a]"

text \<open>
  \<open>axis_slices(IM, radial_range, slice_width)\<close>, source lines 485 to 502.  The
  profiles \<open>top\<close> and \<open>left\<close> are reversed (\<open>[::-1]\<close>) before the radial range is cut.
\<close>

definition axis_slices ::
  "'a::comm_monoid_add ndarray \<Rightarrow> int \<times> int \<Rightarrow> int \<Rightarrow> 'a list \<times> 'a list \<times> 'a list \<times> 'a list" where
  "axis_slices IM radial_range slice_width =
     (let rows = int (nrows IM); cols = int (ncols IM);
          r2 = rows div 2 + rows mod 2;
          c2 = cols div 2 + cols mod 2;
          sw2 = slice_width div 2;
          rmin = fst radial_range; rmax = snd radial_range;
          top' = sum_axis1 (getitem IM (Slice None (Some r2),
                                       Slice (Some (c2 - sw2)) (Some (c2 + sw2))));
          bottom' = sum_axis1 (getitem IM (Slice (Some (r2 - rows mod 2)) None,
                                          Slice (Some (c2 - sw2)) (Some (c2 + sw2))));
          left' = sum_axis0 (getitem IM (Slice (Some (r2 - sw2)) (Some (r2 + sw2)),
                                        Slice None (Some c2)));
          right' = sum_axis0 (getitem IM (Slice (Some (r2 - sw2)) (Some (r2 + sw2)),
                                         Slice (Some (c2 - cols mod 2)) None));
          rr = Slice (Some rmin) (Some rmax)
      in (slice_list rr (rev top'), slice_list rr bottom',
          slice_list rr (rev left'), slice_list rr right'))"

text \<open>
  The bounded minimiser, a collaborator: \<open>minimize A B\<close> stands for the call
  \<open>minimize(_align, [0.1], args=(A, B), bounds=((-50, 50),), tol=0.1)\<close> and returns
  SciPy's result (its success flag, its minimising value and its diagnostics).
\<close>

type_synonym 'a minimizer = "'a list \<Rightarrow> 'a list \<Rightarrow> fit_result"

text \<open>Source lines 562 to 568 (axis 0) and 571 to 577 (axis 1): the offset of one axis.\<close>

definition slice_offset :: "bool \<Rightarrow> string \<Rightarrow> fit_result \<Rightarrow> error + rat" where
  "slice_offset requested msg fit =
     (if requested then
        (if success fit then Inr (- x fit / 2) else Inl (RuntimeError msg (Some fit)))
      else Inr 0)"

text \<open>
  \<open>find_origin_by_slice(IM, slice_width, radial_range, axis)\<close>, source lines 546 to 582.
  The minimiser runs for an axis only when the axis is requested, and for axis 1 only
  when axis 0 did not raise.
\<close>

definition find_origin_by_slice ::
  "'a minimizer \<Rightarrow> 'a::comm_monoid_add ndarray \<Rightarrow> int \<Rightarrow> int \<times> int \<Rightarrow> axis set \<Rightarrow>
     error + (rat \<times> rat)" where
  "find_origin_by_slice minimize IM slice_width radial_range axis =
     (let r2 = int (nrows IM) div 2;
          c2 = int (ncols IM) div 2
      in case axis_slices IM radial_range slice_width of
           (top', bottom', left', right') \<Rightarrow>
             (case slice_offset (Vertical \<in> axis) ''fit failure: axis = 0, zero shift set''
                     (minimize top' bottom') of
                Inl e \<Rightarrow> Inl e
              | Inr off0 \<Rightarrow>
                  (case slice_offset (Horizontal \<in> axis)
                          ''fit failure: axis = 1, zero shift set'' (minimize left' right') of
                     Inl e \<Rightarrow> Inl e
                   | Inr off1 \<Rightarrow> Inr (of_int r2 - off0, of_int c2 - off1))))"

section \<open>\<open>find_origin\<close> and \<open>center_image\<close>\<close>

text \<open>
  The keyword options an estimator reads from \<open>**kwargs\<close>; \<open>slice_defaults\<close> are the
  defaults of \<open>find_origin_by_slice\<close>.
\<close>

record slice_options =
  slice_width :: int
  radial_range :: "int \<times> int"
  slice_axis :: "axis set"

definition slice_defaults :: slice_options where
  "slice_defaults = \<lparr>slice_width = 10, radial_range = (0, - 1),
                      slice_axis = {Vertical, Horizontal}\<rparr>"

type_synonym 'a estimator = "'a ndarray \<Rightarrow> error + (rat \<times> rat)"

text \<open>
  The registry \<open>func_method\<close> (source lines 585 to 591).  The estimators \<open>com\<close>,
  \<open>convolution\<close> and \<open>gaussian\<close> compute with SciPy, NumPy and \<open>fit_gaussian\<close>; they
  are the parameter \<open>numeric\<close>.
\<close>

definition func_method ::
  "'a minimizer \<Rightarrow> (string \<Rightarrow> 'a estimator) \<Rightarrow> slice_options \<Rightarrow> string \<Rightarrow>
     ('a::comm_monoid_add) estimator option" where
  "func_method minimize numeric kw name =
     (if name = ''image_center'' then Some (\<lambda>IM. Inr (find_origin_by_center_of_image IM))
      else if name = ''com'' \<or> name = ''convolution'' \<or> name = ''gaussian''
        then Some (numeric name)
      else if name = ''slice''
        then Some (\<lambda>IM. find_origin_by_slice minimize IM (slice_width kw) (radial_range kw)
                           (slice_axis kw))
      else None)"

text \<open>\<open>find_origin(IM, method, **kwargs)\<close>, source line 52; a missing key raises.\<close>

definition find_origin ::
  "'a minimizer \<Rightarrow> (string \<Rightarrow> 'a estimator) \<Rightarrow> 'a::comm_monoid_add ndarray \<Rightarrow> string \<Rightarrow>
     slice_options \<Rightarrow> error + (rat \<times> rat)" where
  "find_origin minimize numeric IM name kw =
     (case func_method minimize numeric kw name of
        None \<Rightarrow> Inl (KeyError name)
      | Some estimator \<Rightarrow> estimator IM)"

text \<open>
  The argument \<open>method\<close> of \<open>center_image\<close>: the name of an estimator, or the origin
  itself.
\<close>

datatype origin_arg = By_name string | Coordinates "rat option \<times> rat option"

text \<open>
  Source lines 125 to 150 of \<open>center_image\<close>: the image after \<open>odd_size\<close> and \<open>square\<close>
  were applied.  Each step is a basic slice of the step before.
\<close>

definition trim_image :: "'a ndarray \<Rightarrow> bool \<Rightarrow> bool \<Rightarrow> 'a ndarray" where
  "trim_image IM odd_size square =
     (let IM1 = (if odd_size \<and> int (ncols IM) mod 2 = 0
                 then getitem IM (whole, Slice None (Some (- 1))) else IM);
          rows = int (nrows IM1); cols = int (ncols IM1)
      in if square \<and> rows \<noteq> cols then
           (if rows > cols then
              let diff = rows - cols;
                  trim = diff div 2;
                  IM2 = (if trim > 0
                         then getitem IM1 (Slice (Some trim) (Some (- trim)), whole) else IM1)
              in (if diff mod 2 \<noteq> 0
                  then getitem IM2 (Slice None (Some (- 1)), whole) else IM2)
            else
              let shrink = (odd_size \<and> rows mod 2 = 0);
                  IM2 = (if shrink
                         then getitem IM1 (Slice None (Some (- 1)), whole) else IM1);
                  rows1 = (if shrink then rows - 1 else rows);
                  xs = (cols - rows1) div 2
              in getitem IM2 (whole, Slice (Some xs) (Some (- xs))))
         else IM1)"

text \<open>
  \<open>center_image(IM, method, odd_size, square, axes, crop, **kwargs)\<close>, source lines 120
  to 160.  \<open>set_center\<close> is called without \<open>order\<close>, so with its default 3.
\<close>

definition center_image ::
  "'a shift_fn \<Rightarrow> 'a minimizer \<Rightarrow> (string \<Rightarrow> 'a estimator) \<Rightarrow> nat \<Rightarrow>
     'a::{zero, comm_monoid_add} ndarray \<Rightarrow> origin_arg \<Rightarrow> bool \<Rightarrow> bool \<Rightarrow> axis set \<Rightarrow>
     string \<Rightarrow> slice_options \<Rightarrow> error + ('a ndarray \<times> nat)" where
  "center_image sh minimize numeric h IM method odd_size square axes crop kw =
     (let IM1 = trim_image IM odd_size square
      in case (case method of
                 By_name name \<Rightarrow>
                   (case find_origin minimize numeric IM1 name kw of
                      Inl e \<Rightarrow> Inl e
                    | Inr (r, c) \<Rightarrow> Inr (Some r, Some c))
               | Coordinates origin \<Rightarrow> Inr origin) of
           Inl e \<Rightarrow> Inl e
         | Inr origin \<Rightarrow> set_center sh h IM1 origin crop axes 3)"

section \<open>Notions used to state the properties\<close>

text \<open>
  A whole-pixel origin: each coordinate is an integer or \<open>None\<close>.
\<close>

definition whole_origin :: "int option \<times> int option \<Rightarrow> rat option \<times> rat option" where
  "whole_origin org = (map_option of_int (fst org), map_option of_int (snd org))"

text \<open>The absolute coordinate of a coordinate that may count from the far edge.\<close>

definition absolute :: "nat \<Rightarrow> int \<Rightarrow> int" where
  "absolute n c = (if c < 0 then c + int n else c)"

text \<open>The mirror of an absolute coordinate: its distance from the far edge.\<close>

definition mirror :: "nat \<Rightarrow> int \<Rightarrow> int" where
  "mirror n c = int n - 1 - c"

text \<open>An axis is active when it is in \<open>axes\<close> and its coordinate is not \<open>None\<close>.\<close>

definition active :: "axis set \<Rightarrow> 'b option \<times> 'b option \<Rightarrow> axis \<Rightarrow> bool" where
  "active axes org a = (a \<in> axes \<and> component org a \<noteq> None)"

text \<open>
  The slice \<open>[origin - d : origin + d + 1]\<close> with \<open>d = min(origin, mirror)\<close> on an active
  axis, the whole axis otherwise.
\<close>

definition valid_slice :: "'a ndarray \<Rightarrow> axis set \<Rightarrow> int option \<times> int option \<Rightarrow> axis \<Rightarrow> slice" where
  "valid_slice data axes org a =
     (case component org a of
        None \<Rightarrow> whole
      | Some c \<Rightarrow>
          if a \<in> axes then
            (let c0 = absolute (shape data a) c;
                 d = min c0 (mirror (shape data a) c0)
             in Slice (Some (c0 - d)) (Some (c0 + d + 1)))
          else whole)"

text \<open>
  The zeros added before and after the data: \<open>d - origin\<close> and \<open>d - mirror\<close> with
  \<open>d = max(origin, mirror)\<close> on an active axis, none otherwise.
\<close>

definition pad_before :: "'a ndarray \<Rightarrow> axis set \<Rightarrow> int option \<times> int option \<Rightarrow> axis \<Rightarrow> nat" where
  "pad_before data axes org a =
     (case component org a of
        None \<Rightarrow> 0
      | Some c \<Rightarrow>
          if a \<in> axes then
            (let c0 = absolute (shape data a) c;
                 d = max c0 (mirror (shape data a) c0)
             in nat (d - c0))
          else 0)"

definition pad_after :: "'a ndarray \<Rightarrow> axis set \<Rightarrow> int option \<times> int option \<Rightarrow> axis \<Rightarrow> nat" where
  "pad_after data axes org a =
     (case component org a of
        None \<Rightarrow> 0
      | Some c \<Rightarrow>
          if a \<in> axes then
            (let c0 = absolute (shape data a) c;
                 d = max c0 (mirror (shape data a) c0)
             in nat (d - mirror (shape data a) c0))
          else 0)"

text \<open>
  The origin that the claim about \<open>find_origin_by_slice\<close> states: measured from
  \<open>rows // 2 + rows % 2\<close> and \<open>cols // 2 + cols % 2\<close>, the centre of \<open>axis_slices\<close>.
\<close>

definition slice_extractor_center :: "'a ndarray \<Rightarrow> int \<times> int" where
  "slice_extractor_center IM =
     (int (nrows IM) div 2 + int (nrows IM) mod 2, int (ncols IM) div 2 + int (ncols IM) mod 2)"

definition requested_offset :: "bool \<Rightarrow> fit_result \<Rightarrow> rat" where
  "requested_offset requested fit = (if requested then - x fit / 2 else 0)"

section \<open>Sample inputs\<close>

definition img5 :: "int ndarray" where
  "img5 = \<lparr>buf = 0, ncols = 5,
            cells = [[11, 12, 13, 14, 15], [21, 22, 23, 24, 25], [31, 32, 33, 34, 35],
                     [41, 42, 43, 44, 45], [51, 52, 53, 54, 55]]\<rparr>"

definition img3 :: "int ndarray" where
  "img3 = \<lparr>buf = 0, ncols = 3, cells = [[1, 2, 1], [2, 4, 2], [1, 2, 1]]\<rparr>"

definition img47 :: "int ndarray" where
  "img47 = \<lparr>buf = 0, ncols = 7,
             cells = [[11, 12, 13, 14, 15, 16, 17], [21, 22, 23, 24, 25, 26, 27],
                      [31, 32, 33, 34, 35, 36, 37], [41, 42, 43, 44, 45, 46, 47]]\<rparr>"

text \<open>A minimiser that converges at shift 0, and one that reports failure.\<close>

definition converged_fit :: "int minimizer" where
  "converged_fit A B = \<lparr>success = True, x = 0, message = ''CONVERGENCE''\<rparr>"

definition failed_fit :: "int minimizer" where
  "failed_fit A B = \<lparr>success = False, x = 1 / 10, message = ''ABNORMAL_TERMINATION''\<rparr>"

text \<open>
  A shift collaborator for the examples: every pixel of the result is the pixel of the
  input nearest to its source position, zero outside the input.
\<close>

definition nearest_pixel :: "int list list \<Rightarrow> int \<Rightarrow> int \<Rightarrow> int" where
  "nearest_pixel m i j =
     (if 0 \<le> i \<and> i < int (length m) \<and> 0 \<le> j \<and> j < int (length (m ! nat i))
      then m ! nat i ! nat j else 0)"

definition nearest_shift :: "int shift_fn" where
  "nearest_shift m d k =
     map (\<lambda>i. map (\<lambda>j. nearest_pixel m (py_round (of_nat i - fst d)) (py_round (of_nat j - snd d)))
                 [0..<length (m ! i)])
         [0..<length m]"

text \<open>The array that \<open>numpy.pad\<close> builds from widths that are not negative.\<close>

definition padded :: "nat \<Rightarrow> 'a::zero ndarray \<Rightarrow> nat \<Rightarrow> nat \<Rightarrow> nat \<Rightarrow> nat \<Rightarrow> 'a ndarray" where
  "padded h a b0 a0 b1 a1 =
     \<lparr>buf = h, ncols = b1 + ncols a + a1,
      cells = replicate b0 (replicate (b1 + ncols a + a1) 0)
            @ map (\<lambda>r. replicate b1 0 @ r @ replicate a1 0) (cells a)
            @ replicate a0 (replicate (b1 + ncols a + a1) 0)\<rparr>"

text \<open>
  The origin as the claim about \<open>find_origin_by_slice\<close> states it: the offsets taken from
  the centre of the slice extractor.
\<close>

definition claimed_slice_origin ::
  "'a minimizer \<Rightarrow> 'a::comm_monoid_add ndarray \<Rightarrow> int \<Rightarrow> int \<times> int \<Rightarrow> axis set \<Rightarrow> rat \<times> rat" where
  "claimed_slice_origin minimize IM sw rr axis =
     (case axis_slices IM rr sw of
        (top', bottom', left', right') \<Rightarrow>
          (of_int (fst (slice_extractor_center IM))
             - requested_offset (Vertical \<in> axis) (minimize top' bottom'),
           of_int (snd (slice_extractor_center IM))
             - requested_offset (Horizontal \<in> axis) (minimize left' right')))"

text \<open>
  The fractional part that \<open>set_center\<close> splits off a coordinate on an axis of length
  \<open>n\<close> when \<open>order\<close> is not 0.
\<close>

definition fraction :: "nat \<Rightarrow> rat \<Rightarrow> rat" where
  "fraction n v = (let v1 = (if v < 0 then v + of_nat n else v) in v1 - of_int (py_int v1))"

text \<open>The whole-pixel shift \<open>delta[a] = center[a] - origin[a]\<close> of an active axis, 0 otherwise.\<close>

definition shift_of :: "'a ndarray \<Rightarrow> axis set \<Rightarrow> int option \<times> int option \<Rightarrow> axis \<Rightarrow> int" where
  "shift_of data axes org a =
     (case component org a of
        None \<Rightarrow> 0
      | Some c \<Rightarrow> if a \<in> axes then center_of data a - absolute (shape data a) c else 0)"

section \<open>Slices and views\<close>

lemma slice_index_le: "slice_index n i \<le> n"
  unfolding slice_index_def by (cases "i < 0") (simp_all add: nat_le_iff)

lemma slice_start_le: "slice_start s n \<le> n"
  by (cases s) (simp add: slice_index_le split: option.splits)

lemma slice_stop_le: "slice_stop s n \<le> n"
  by (cases s) (simp add: slice_index_le split: option.splits)

lemma slice_len_le: "slice_start s n + slice_len s n \<le> n"
  using slice_stop_le [of s n] slice_start_le [of s n] by (simp add: slice_len_def)

lemma length_slice_list: "length (slice_list s xs) = slice_len s (length xs)"
  using slice_len_le [of s "length xs"] by (simp add: slice_list_def)

lemma nth_slice_list:
  "i < slice_len s (length xs) \<Longrightarrow> slice_list s xs ! i = xs ! (slice_start s (length xs) + i)"
  using slice_len_le [of s "length xs"] by (simp add: slice_list_def)

lemma slice_whole: "slice_start whole n = 0" "slice_len whole n = n" "slice_list whole xs = xs"
  by (simp_all add: slice_len_def slice_list_def)

lemma set_slice_list: "set (slice_list s xs) \<subseteq> set xs"
  unfolding slice_list_def by (meson set_take_subset set_drop_subset subset_trans)

lemma nrows_getitem: "nrows (getitem a ss) = slice_len (fst ss) (nrows a)"
  by (simp add: getitem_def nrows_def length_slice_list)

lemma ncols_getitem: "ncols (getitem a ss) = slice_len (snd ss) (ncols a)"
  by (simp add: getitem_def)

lemma buf_getitem: "buf (getitem a ss) = buf a"
  by (simp add: getitem_def)

lemma rect_getitem: "rect a \<Longrightarrow> rect (getitem a ss)"
  using set_slice_list [of "fst ss" "cells a"]
  by (auto simp: rect_def getitem_def list_all_iff length_slice_list)

lemma rect_nth: "rect a \<Longrightarrow> i < nrows a \<Longrightarrow> length (cells a ! i) = ncols a"
  by (simp add: rect_def nrows_def list_all_length)

lemma cell_getitem:
  assumes "rect a" "i < nrows (getitem a ss)" "j < ncols (getitem a ss)"
  shows "cell (getitem a ss) i j
           = cell a (slice_start (fst ss) (nrows a) + i) (slice_start (snd ss) (ncols a) + j)"
proof -
  have i: "i < slice_len (fst ss) (nrows a)" using assms(2) by (simp add: nrows_getitem)
  have j: "j < slice_len (snd ss) (ncols a)" using assms(3) by (simp add: ncols_getitem)
  have r: "slice_start (fst ss) (nrows a) + i < nrows a"
    using i slice_len_le [of "fst ss" "nrows a"] by simp
  have len: "length (cells a ! (slice_start (fst ss) (nrows a) + i)) = ncols a"
    using rect_nth [OF assms(1) r] .
  show ?thesis
    using i j len
    by (simp add: cell_def getitem_def nrows_def length_slice_list nth_slice_list)
qed

lemma slice_list_whole_id: "slice_list whole = (\<lambda>xs. xs)"
  by (rule ext) (simp add: slice_whole)

lemma getitem_whole: "rect a \<Longrightarrow> getitem a (whole, whole) = a"
  by (simp add: getitem_def slice_whole slice_list_whole_id rect_def list_all_iff)

lemma py_int_of_int: "py_int (of_int k) = k"
  by (simp add: py_int_def)

lemma py_round_of_int: "py_round (of_int k) = k"
  by (simp add: py_round_def)

lemma axis_UNIV: "(\<forall>a. P a) = (P Vertical \<and> P Horizontal)"
  by (metis axis.exhaust)

lemma py_int_shift: "py_int (of_int a + of_nat n) = a + int n"
  using py_int_of_int [of "a + int n"] by simp

lemma py_round_shift: "py_round (of_int a + of_nat n) = a + int n"
  using py_round_of_int [of "a + int n"] by simp

lemma axis_neq: "(a \<noteq> Horizontal) = (a = Vertical)" "(a \<noteq> Vertical) = (a = Horizontal)"
  by (cases a; simp)+

lemma preprocess_axis_whole:
  "preprocess_axis shp (component (whole_origin org)) order a s =
     (case component org a of
        None \<Rightarrow> s\<lparr>p_axes := p_axes s - {a}\<rparr>
      | Some c \<Rightarrow>
          s\<lparr>p_origin := (p_origin s)(a := Some (absolute (shp a) c)),
            p_subpixel := (p_subpixel s)(a := (if order \<noteq> 0 then 0 else p_subpixel s a)),
            p_mirror := (p_mirror s)(a := Some (mirror (shp a) (absolute (shp a) c)))\<rparr>)"
proof -
  have c: "component (whole_origin org) a = map_option of_int (component org a)"
    by (simp add: component_def whole_origin_def split: axis.splits)
  show ?thesis
    unfolding preprocess_axis_def c
    by (cases "component org a")
       (simp_all add: Let_def absolute_def mirror_def py_int_of_int py_round_of_int
          py_int_shift py_round_shift)
qed

lemma preprocess_whole:
  "preprocess data (whole_origin org) axes order =
     \<lparr>p_axes = {a \<in> axes. component org a \<noteq> None},
      p_origin = (\<lambda>a. map_option (absolute (shape data a)) (component org a)),
      p_subpixel = (\<lambda>a. 0),
      p_mirror = (\<lambda>a. map_option (\<lambda>c. mirror (shape data a) (absolute (shape data a) c))
                          (component org a)),
      p_order = 0\<rparr>"
  unfolding preprocess_def Let_def fold_simps preprocess_axis_whole
  apply (cases "component org Vertical"; cases "component org Horizontal")
     apply (auto simp: fun_eq_iff axis_UNIV axis_neq split: axis.splits)
   apply (metis axis.exhaust)+
  done

section \<open>Whole-pixel origins\<close>

lemma axis_entry_whole:
  "axis_entry (preprocess data (whole_origin org) axes order) dflt f a =
     Inr (case component org a of
            None \<Rightarrow> dflt
          | Some c \<Rightarrow>
              if a \<in> axes
              then f (absolute (shape data a) c) (mirror (shape data a) (absolute (shape data a) c))
              else dflt)"
  by (simp add: axis_entry_def preprocess_whole split: option.splits)

lemma subpixel_shift_whole:
  "subpixel_shift sh h data crop (preprocess data (whole_origin org) axes order) =
     Inr (data, preprocess data (whole_origin org) axes order, h)"
  by (simp add: subpixel_shift_def preprocess_whole)

lemma set_center_valid_region_whole:
  "set_center sh h data (whole_origin org) ''valid_region'' axes order =
     Inr (np_copy h (getitem data (valid_slice data axes org Vertical,
                                   valid_slice data axes org Horizontal)))"
  by (simp add: set_center_def Let_def subpixel_shift_whole crop_valid_region_def
        both_axes_def axis_entry_whole valid_slice_def split: option.splits)

lemma set_center_maintain_data_whole:
  "set_center sh h data (whole_origin org) ''maintain_data'' axes order =
     np_pad h data ((int (pad_before data axes org Vertical), int (pad_after data axes org Vertical)),
                    (int (pad_before data axes org Horizontal), int (pad_after data axes org Horizontal)))"
  by (simp add: set_center_def Let_def subpixel_shift_whole crop_maintain_data_def
        both_axes_def axis_entry_whole pad_before_def pad_after_def split: option.splits)

lemma set_center_maintain_size_whole:
  "set_center sh h data (whole_origin org) ''maintain_size'' axes order =
     maintain_size_whole h data (preprocess data (whole_origin org) axes order)"
  by (simp add: set_center_def Let_def preprocess_whole)

section \<open>Properties of \<open>set_center\<close>\<close>

lemma rect_img5: "rect img5"
  by (simp add: rect_def img5_def)

text \<open>
  Claim C5.  For every image and every whole-pixel origin, \<open>set_center\<close> with
  \<open>crop = 'valid_region'\<close> returns, on each active axis, the slice
  \<open>[origin - d : origin + d + 1]\<close> of the input with \<open>d = min(origin, mirror)\<close>, and the
  whole axis on the others.  So the output is a contiguous block of the input (its
  element \<open>(i, j)\<close> is the input's element at the slice starts plus \<open>(i, j)\<close>), its shape
  is at most the input's, and it lives in a buffer of its own: it does not alias the
  input.
\<close>

theorem valid_region_is_slice:
  assumes "rect data" and "buf data < h"
  shows "\<exists>out h'.
           set_center sh h data (whole_origin org) ''valid_region'' axes order = Inr (out, h')
         \<and> array_equal out (getitem data (valid_slice data axes org Vertical,
                                          valid_slice data axes org Horizontal))
         \<and> slice_start (valid_slice data axes org Vertical) (nrows data) + nrows out \<le> nrows data
         \<and> slice_start (valid_slice data axes org Horizontal) (ncols data) + ncols out \<le> ncols data
         \<and> (\<forall>i j. i < nrows out \<and> j < ncols out \<longrightarrow>
               cell out i j =
                 cell data (slice_start (valid_slice data axes org Vertical) (nrows data) + i)
                           (slice_start (valid_slice data axes org Horizontal) (ncols data) + j))
         \<and> nrows out \<le> nrows data \<and> ncols out \<le> ncols data
         \<and> (\<forall>a. \<not> active axes org a \<longrightarrow> shape out a = shape data a)
         \<and> buf out \<noteq> buf data"
proof -
  let ?ss = "(valid_slice data axes org Vertical, valid_slice data axes org Horizontal)"
  let ?v = "getitem data ?ss"
  let ?out = "fst (np_copy h ?v)"
  have run: "set_center sh h data (whole_origin org) ''valid_region'' axes order
               = Inr (?out, Suc h)"
    by (simp add: set_center_valid_region_whole np_copy_def)
  have eq: "array_equal ?out ?v"
    by (simp add: array_equal_def np_copy_def)
  have nr: "nrows ?out = slice_len (fst ?ss) (nrows data)"
    using nrows_getitem [of data ?ss] by (simp add: np_copy_def nrows_def)
  have nc: "ncols ?out = slice_len (snd ?ss) (ncols data)"
    using ncols_getitem [of data ?ss] by (simp add: np_copy_def)
  have r_in: "slice_start (fst ?ss) (nrows data) + nrows ?out \<le> nrows data"
    unfolding nr by (rule slice_len_le)
  have c_in: "slice_start (snd ?ss) (ncols data) + ncols ?out \<le> ncols data"
    unfolding nc by (rule slice_len_le)
  have cells: "cell ?out i j =
                 cell data (slice_start (fst ?ss) (nrows data) + i)
                           (slice_start (snd ?ss) (ncols data) + j)"
    if "i < nrows ?out" "j < ncols ?out" for i j
  proof -
    have "i < nrows ?v" "j < ncols ?v"
      using that by (simp_all add: np_copy_def nrows_def)
    from cell_getitem [OF assms(1) this] show ?thesis
      by (simp add: cell_def np_copy_def)
  qed
  have inactive: "shape ?out a = shape data a" if "\<not> active axes org a" for a
  proof -
    have "valid_slice data axes org a = whole"
      using that by (auto simp: valid_slice_def active_def split: option.splits)
    then show ?thesis
      using nr nc by (cases a) (simp_all add: shape_def slice_whole)
  qed
  have fresh: "buf ?out \<noteq> buf data"
    using assms(2) by (simp add: np_copy_def)
  show ?thesis
    using run eq r_in c_in cells inactive fresh by (intro exI [of _ ?out] exI [of _ "Suc h"]) auto
qed

text \<open>
  An instance: the 5 by 5 sample with origin \<open>(1, 3)\<close> gives rows 0 to 2 and columns 2
  to 4.
\<close>

theorem valid_region_is_slice_witness:
  "rect img5 \<and> buf img5 < 1
   \<and> (\<exists>out h'. set_center nearest_shift 1 img5 (whole_origin (Some 1, Some 3)) ''valid_region''
                  {Vertical, Horizontal} 3 = Inr (out, h')
        \<and> array_equal out (getitem img5 (Slice (Some 0) (Some 3), Slice (Some 2) (Some 5)))
        \<and> cells out = [[13, 14, 15], [23, 24, 25], [33, 34, 35]]
        \<and> buf out \<noteq> buf img5)"
proof -
  have b: "buf img5 < 1" by (simp add: img5_def)
  have v: "valid_slice img5 {Vertical, Horizontal} (Some 1, Some 3) Vertical = Slice (Some 0) (Some 3)"
    by (simp add: valid_slice_def component_def absolute_def mirror_def shape_def nrows_def img5_def)
  have w: "valid_slice img5 {Vertical, Horizontal} (Some 1, Some 3) Horizontal = Slice (Some 2) (Some 5)"
    by (simp add: valid_slice_def component_def absolute_def mirror_def shape_def nrows_def img5_def)
  have g: "cells (getitem img5 (Slice (Some 0) (Some 3), Slice (Some 2) (Some 5)))
            = [[13, 14, 15], [23, 24, 25], [33, 34, 35]]"
    by (simp add: getitem_def img5_def slice_list_def slice_len_def slice_index_def)
  from valid_region_is_slice [OF rect_img5 b, of nearest_shift "(Some 1, Some 3)" "{Vertical, Horizontal}" 3]
  show ?thesis
    unfolding v w using rect_img5 b g by (auto simp: array_equal_def)
qed

section \<open>Padding\<close>

lemma np_pad_nat:
  "np_pad h a ((int b0, int a0), (int b1, int a1)) = Inr (padded h a b0 a0 b1 a1, Suc h)"
  by (simp add: np_pad_def padded_def Let_def)

lemma nrows_padded: "nrows (padded h a b0 a0 b1 a1) = b0 + nrows a + a0"
  by (simp add: padded_def nrows_def)

lemma ncols_padded: "ncols (padded h a b0 a0 b1 a1) = b1 + ncols a + a1"
  by (simp add: padded_def)

lemma rect_padded: "rect a \<Longrightarrow> rect (padded h a b0 a0 b1 a1)"
  by (auto simp: rect_def padded_def list_all_iff)

lemma cell_padded_inside:
  assumes "rect a" "i < nrows a" "j < ncols a"
  shows "cell (padded h a b0 a0 b1 a1) (b0 + i) (b1 + j) = cell a i j"
proof -
  have len: "length (cells a ! i) = ncols a"
    using rect_nth [OF assms(1,2)] .
  have "cells (padded h a b0 a0 b1 a1) ! (b0 + i)
          = replicate b1 0 @ cells a ! i @ replicate a1 0"
    using assms(2) by (simp add: padded_def nth_append nrows_def)
  then show ?thesis
    using assms(3) len by (simp add: cell_def nth_append)
qed

lemma cell_padded_outside:
  assumes "rect a" "i < b0 + nrows a + a0" "j < b1 + ncols a + a1"
    and "\<not> (b0 \<le> i \<and> i < b0 + nrows a \<and> b1 \<le> j \<and> j < b1 + ncols a)"
  shows "cell (padded h a b0 a0 b1 a1) i j = 0"
proof (cases "b0 \<le> i \<and> i < b0 + nrows a")
  case True
  then have row: "cells (padded h a b0 a0 b1 a1) ! i
          = replicate b1 0 @ cells a ! (i - b0) @ replicate a1 0"
    by (auto simp: padded_def nth_append nrows_def)
  have len: "length (cells a ! (i - b0)) = ncols a"
    using True by (intro rect_nth [OF assms(1)]) auto
  have out: "j < b1 \<or> b1 + ncols a \<le> j"
    using True assms(4) by auto
  show ?thesis
    unfolding cell_def row using out assms(3) len
    by (auto simp: nth_append)
next
  case False
  then have "cells (padded h a b0 a0 b1 a1) ! i = replicate (b1 + ncols a + a1) 0"
    using assms(2) by (auto simp: padded_def nth_append nrows_def)
  then show ?thesis
    using assms(3) by (simp add: cell_def)
qed

text \<open>
  Claim C6.  For every image and every whole-pixel origin, \<open>set_center\<close> with
  \<open>crop = 'maintain_data'\<close> returns an array that holds the whole input, unmodified, at
  the offset \<open>d - origin\<close> on each active axis (\<open>d = max(origin, mirror)\<close>; offset 0 on the
  other axes), and zero in every other cell.  Its shape is the input's plus the padding,
  so at least the input's, and an axis that is not active keeps its length.
\<close>

theorem maintain_data_embeds_input:
  assumes "rect data"
  shows "\<exists>out h'.
           set_center sh h data (whole_origin org) ''maintain_data'' axes order = Inr (out, h')
         \<and> rect out
         \<and> nrows out = pad_before data axes org Vertical + nrows data
                          + pad_after data axes org Vertical
         \<and> ncols out = pad_before data axes org Horizontal + ncols data
                          + pad_after data axes org Horizontal
         \<and> nrows data \<le> nrows out \<and> ncols data \<le> ncols out
         \<and> (\<forall>a. \<not> active axes org a \<longrightarrow> shape out a = shape data a)
         \<and> (\<forall>i j. i < nrows data \<and> j < ncols data \<longrightarrow>
               cell out (pad_before data axes org Vertical + i)
                        (pad_before data axes org Horizontal + j) = cell data i j)
         \<and> (\<forall>i j. i < nrows out \<and> j < ncols out
                 \<and> \<not> (pad_before data axes org Vertical \<le> i
                      \<and> i < pad_before data axes org Vertical + nrows data
                      \<and> pad_before data axes org Horizontal \<le> j
                      \<and> j < pad_before data axes org Horizontal + ncols data) \<longrightarrow>
               cell out i j = 0)"
proof -
  let ?b0 = "pad_before data axes org Vertical" and ?a0 = "pad_after data axes org Vertical"
  let ?b1 = "pad_before data axes org Horizontal" and ?a1 = "pad_after data axes org Horizontal"
  let ?out = "padded h data ?b0 ?a0 ?b1 ?a1"
  have run: "set_center sh h data (whole_origin org) ''maintain_data'' axes order
               = Inr (?out, Suc h)"
    by (simp add: set_center_maintain_data_whole np_pad_nat)
  have inactive: "shape ?out a = shape data a" if "\<not> active axes org a" for a
  proof -
    have "pad_before data axes org a = 0" "pad_after data axes org a = 0"
      using that by (auto simp: pad_before_def pad_after_def active_def split: option.splits)
    then show ?thesis
      by (cases a) (simp_all add: shape_def nrows_padded ncols_padded)
  qed
  have inside: "cell ?out (?b0 + i) (?b1 + j) = cell data i j"
    if "i < nrows data \<and> j < ncols data" for i j
    using that cell_padded_inside [OF assms] by blast
  have outside: "cell ?out i j = 0"
    if "i < nrows ?out \<and> j < ncols ?out
          \<and> \<not> (?b0 \<le> i \<and> i < ?b0 + nrows data \<and> ?b1 \<le> j \<and> j < ?b1 + ncols data)" for i j
    using that cell_padded_outside [OF assms, of i ?b0 ?a0 j ?b1 ?a1 h]
    by (simp add: nrows_padded ncols_padded)
  show ?thesis
    apply (intro exI [of _ ?out] exI [of _ "Suc h"] conjI)
            apply (rule run)
           apply (rule rect_padded [OF assms])
          apply (rule nrows_padded)
         apply (rule ncols_padded)
        apply (simp add: nrows_padded)
       apply (simp add: ncols_padded)
    using inactive apply blast
    using inside apply blast
    using outside apply blast
    done
qed

text \<open>
  An instance: the 5 by 5 sample with origin \<open>(1, 3)\<close> gets two rows of zeros before
  and two columns of zeros after.
\<close>

theorem maintain_data_embeds_input_witness:
  "rect img5
   \<and> (\<exists>out h'. set_center nearest_shift 1 img5 (whole_origin (Some 1, Some 3)) ''maintain_data''
                  {Vertical, Horizontal} 3 = Inr (out, h')
        \<and> nrows out = 2 + nrows img5 + 0 \<and> ncols out = 0 + ncols img5 + 2
        \<and> cells out = [[0, 0, 0, 0, 0, 0, 0], [0, 0, 0, 0, 0, 0, 0],
                        [11, 12, 13, 14, 15, 0, 0], [21, 22, 23, 24, 25, 0, 0],
                        [31, 32, 33, 34, 35, 0, 0], [41, 42, 43, 44, 45, 0, 0],
                        [51, 52, 53, 54, 55, 0, 0]])"
proof -
  have p: "pad_before img5 {Vertical, Horizontal} (Some 1, Some 3) Vertical = 2"
          "pad_after img5 {Vertical, Horizontal} (Some 1, Some 3) Vertical = 0"
          "pad_before img5 {Vertical, Horizontal} (Some 1, Some 3) Horizontal = 0"
          "pad_after img5 {Vertical, Horizontal} (Some 1, Some 3) Horizontal = 2"
    by (simp_all add: pad_before_def pad_after_def component_def absolute_def mirror_def
          shape_def nrows_def img5_def)
  have c: "set_center nearest_shift 1 img5 (whole_origin (Some 1, Some 3)) ''maintain_data''
             {Vertical, Horizontal} 3 = Inr (padded 1 img5 2 0 0 2, 2)"
    by (simp add: set_center_maintain_data_whole p np_pad_nat [of _ _ 2 0 0 2, simplified])
  have v: "cells (padded 1 img5 2 0 0 2) = [[0, 0, 0, 0, 0, 0, 0], [0, 0, 0, 0, 0, 0, 0],
                        [11, 12, 13, 14, 15, 0, 0], [21, 22, 23, 24, 25, 0, 0],
                        [31, 32, 33, 34, 35, 0, 0], [41, 42, 43, 44, 45, 0, 0],
                        [51, 52, 53, 54, 55, 0, 0]]"
    by (simp add: padded_def img5_def numeral_eq_Suc)
  from maintain_data_embeds_input [OF rect_img5, of nearest_shift 1 "(Some 1, Some 3)"
      "{Vertical, Horizontal}" 3]
  show ?thesis
    unfolding p c using rect_img5 v by auto
qed

section \<open>An origin at the centre\<close>

lemma slice_list_covers:
  "slice_start s (length xs) = 0 \<Longrightarrow> slice_len s (length xs) = length xs \<Longrightarrow> slice_list s xs = xs"
  by (simp add: slice_list_def)

lemma getitem_covers:
  assumes "rect a"
    and "slice_start (fst ss) (nrows a) = 0" "slice_len (fst ss) (nrows a) = nrows a"
    and "slice_start (snd ss) (ncols a) = 0" "slice_len (snd ss) (ncols a) = ncols a"
  shows "getitem a ss = a"
proof -
  have rows: "slice_list (fst ss) (cells a) = cells a"
    using assms(2,3) by (simp add: slice_list_covers nrows_def)
  have "map (slice_list (snd ss)) (cells a) = cells a"
    using assms(1,4,5) by (intro map_idI) (simp add: rect_def list_all_iff slice_list_covers)
  then show ?thesis
    using rows assms(5) by (simp add: getitem_def)
qed

lemma overwrite_rows:
  "length xs = length ys \<Longrightarrow> \<forall>r\<in>set xs. length r = c \<Longrightarrow>
     map (\<lambda>(row, new). take 0 row @ new @ drop (0 + c) row) (zip xs ys) = ys"
  by (induction xs ys rule: list_induct2) auto

lemma setitem_covers:
  assumes "rect out" "nrows v = nrows out" "ncols v = ncols out"
    and "slice_start (fst ss) (nrows out) = 0" "slice_len (fst ss) (nrows out) = nrows out"
    and "slice_start (snd ss) (ncols out) = 0" "slice_len (snd ss) (ncols out) = ncols out"
  shows "setitem out ss v = Inr (out\<lparr>cells := cells v\<rparr>)"
proof -
  have b: "broadcast_to (nrows out) (ncols out) v = Inr (cells v)"
    using assms(2,3) by (simp add: broadcast_to_def)
  have "map (\<lambda>(row, new). take 0 row @ new @ drop (0 + ncols out) row) (zip (cells out) (cells v))
          = cells v"
    using assms(1,2) by (intro overwrite_rows) (simp_all add: nrows_def rect_def list_all_iff)
  then show ?thesis
    using assms(4-7) b by (simp add: setitem_def Let_def nrows_def)
qed

lemma whole_pixel_regions_centred:
  "whole_pixel_regions c n c = (Slice (Some 0) (Some (int n)), Slice (Some 0) (Some (int n)))"
  by (simp add: whole_pixel_regions_def)

lemma covers_full: "slice_start (Slice (Some 0) (Some (int n))) n = 0"
  "slice_len (Slice (Some 0) (Some (int n))) n = n"
  by (simp_all add: slice_len_def slice_index_def)

lemma maintain_size_whole_centred:
  assumes "rect data"
    and "\<And>a. a \<in> axes \<Longrightarrow> component org a \<noteq> None \<Longrightarrow>
            component org a = Some (center_of data a) \<and> 0 \<le> center_of data a"
  shows "\<exists>out. set_center sh h data (whole_origin org) ''maintain_size'' axes order = Inr (out, Suc h)
            \<and> array_equal out data"
proof -
  let ?s = "preprocess data (whole_origin org) axes order"
  let ?reg = "\<lambda>a. (case component org a of
                      None \<Rightarrow> (whole, whole)
                    | Some c \<Rightarrow> if a \<in> axes
                        then whole_pixel_regions (center_of data a) (shape data a)
                               (absolute (shape data a) c)
                        else (whole, whole))"
  have cov: "slice_start (fst (?reg a)) (shape data a) = 0 \<and> slice_len (fst (?reg a)) (shape data a) = shape data a
           \<and> slice_start (snd (?reg a)) (shape data a) = 0 \<and> slice_len (snd (?reg a)) (shape data a) = shape data a" for a
  proof (cases "a \<in> axes \<and> component org a \<noteq> None")
    case True
    with assms(2) have c: "component org a = Some (center_of data a)" "0 \<le> center_of data a"
      by auto
    show ?thesis
      using True c by (simp add: absolute_def whole_pixel_regions_centred slice_index_def slice_len_def)
  next
    case False
    then show ?thesis
      by (auto simp: slice_whole split: option.splits)
  qed
  have both: "both_axes (\<lambda>a. axis_entry ?s (whole, whole)
                 (\<lambda>c0 m. whole_pixel_regions (center_of data a) (shape data a) c0) a)
              = Inr (?reg Vertical, ?reg Horizontal)"
    by (simp add: both_axes_def axis_entry_whole)
  obtain s0 d0 where rv: "?reg Vertical = (s0, d0)" by (cases "?reg Vertical")
  obtain s1 d1 where rh: "?reg Horizontal = (s1, d1)" by (cases "?reg Horizontal")
  have cv: "slice_start s0 (nrows data) = 0" "slice_len s0 (nrows data) = nrows data"
           "slice_start d0 (nrows data) = 0" "slice_len d0 (nrows data) = nrows data"
    using cov [of Vertical] unfolding rv by (simp_all add: shape_def)
  have ch: "slice_start s1 (ncols data) = 0" "slice_len s1 (ncols data) = ncols data"
           "slice_start d1 (ncols data) = 0" "slice_len d1 (ncols data) = ncols data"
    using cov [of Horizontal] unfolding rh by (simp_all add: shape_def)
  let ?z = "\<lparr>buf = h, ncols = ncols data,
              cells = replicate (nrows data) (replicate (ncols data) (0::'a))\<rparr>"
  have g: "getitem data (s0, s1) = data"
    using cv ch by (intro getitem_covers [OF assms(1)]) simp_all
  have zr: "rect ?z" "nrows ?z = nrows data" "ncols ?z = ncols data"
    by (simp_all add: rect_def nrows_def list_all_iff)
  have st: "setitem ?z (d0, d1) data = Inr (?z\<lparr>cells := cells data\<rparr>)"
    using cv ch zr by (intro setitem_covers) simp_all
  have "maintain_size_whole h data ?s = Inr (?z\<lparr>cells := cells data\<rparr>, Suc h)"
    unfolding maintain_size_whole_def both rv rh
    using g st by (simp add: np_zeros_like_def)
  then show ?thesis
    by (simp add: set_center_maintain_size_whole array_equal_def)
qed

lemma centred_noop:
  assumes "rect data"
    and sym: "\<And>a. a \<in> axes \<Longrightarrow> component org a \<noteq> None \<Longrightarrow>
            \<exists>c. component org a = Some c \<and> 0 \<le> c \<and> int (shape data a) = 2 * c + 1"
    and "crop \<in> {''maintain_size'', ''valid_region'', ''maintain_data''}"
  shows "\<exists>out h'. set_center sh h data (whole_origin org) crop axes order = Inr (out, h')
            \<and> array_equal out data"
proof -
  consider "crop = ''maintain_size''" | "crop = ''valid_region''" | "crop = ''maintain_data''"
    using assms(3) by auto
  then show ?thesis
  proof cases
    case 1
    have ms: "component org a = Some (center_of data a) \<and> 0 \<le> center_of data a"
      if "a \<in> axes" "component org a \<noteq> None" for a
    proof -
      from sym [OF that] obtain c where
        c: "component org a = Some c" "0 \<le> c" "int (shape data a) = 2 * c + 1" by auto
      have "center_of data a = c"
        unfolding center_of_def c(3) by simp
      with c show ?thesis by simp
    qed
    have "\<exists>out. set_center sh h data (whole_origin org) ''maintain_size'' axes order
                  = Inr (out, Suc h) \<and> array_equal out data"
      by (rule maintain_size_whole_centred [OF assms(1) ms])
    then show ?thesis unfolding 1 by blast
  next
    case 2
    have cov: "slice_start (valid_slice data axes org a) (shape data a) = 0
             \<and> slice_len (valid_slice data axes org a) (shape data a) = shape data a" for a
    proof (cases "a \<in> axes \<and> component org a \<noteq> None")
      case True
      then obtain c where c: "component org a = Some c" "0 \<le> c" "int (shape data a) = 2 * c + 1"
        using sym [of a] by auto
      show ?thesis
        using True c
        by (simp add: valid_slice_def absolute_def mirror_def slice_len_def slice_index_def)
    next
      case False
      then show ?thesis
        by (auto simp: valid_slice_def slice_whole split: option.splits)
    qed
    have "getitem data (valid_slice data axes org Vertical, valid_slice data axes org Horizontal)
            = data"
      using cov [of Vertical] cov [of Horizontal]
      by (intro getitem_covers [OF assms(1)]) (simp_all add: shape_def)
    then show ?thesis
      unfolding 2 by (simp add: set_center_valid_region_whole np_copy_def array_equal_def)
  next
    case 3
    have pad: "pad_before data axes org a = 0 \<and> pad_after data axes org a = 0" for a
    proof (cases "a \<in> axes \<and> component org a \<noteq> None")
      case True
      then obtain c where c: "component org a = Some c" "0 \<le> c" "int (shape data a) = 2 * c + 1"
        using sym [of a] by auto
      show ?thesis
        using True c by (simp add: pad_before_def pad_after_def absolute_def mirror_def)
    next
      case False
      then show ?thesis
        by (auto simp: pad_before_def pad_after_def split: option.splits)
    qed
    have "array_equal (padded h data 0 0 0 0) data"
      by (simp add: array_equal_def padded_def)
    moreover have "np_pad h data ((0, 0), (0, 0)) = Inr (padded h data 0 0 0 0, Suc h)"
      using np_pad_nat [of h data 0 0 0 0] by simp
    ultimately show ?thesis
      unfolding 3 by (simp add: set_center_maintain_data_whole pad)
  qed
qed

text \<open>
  Claim C9.  For every square image of odd size and each of the crop options
  \<open>'maintain_size'\<close>, \<open>'valid_region'\<close> and \<open>'maintain_data'\<close>, \<open>set_center\<close> with the
  origin that \<open>find_origin_by_center_of_image\<close> returns, \<open>(rows // 2, cols // 2)\<close>, gives an
  array equal to the input, for every set of axes and every order.
\<close>

theorem image_center_origin_is_noop:
  assumes "rect data" and "odd (nrows data)" and "odd (ncols data)"
    and "nrows data = ncols data"
    and "crop \<in> {''maintain_size'', ''valid_region'', ''maintain_data''}"
  shows "\<exists>out h'.
           set_center sh h data
             (Some (fst (find_origin_by_center_of_image data)),
              Some (snd (find_origin_by_center_of_image data))) crop axes order = Inr (out, h')
         \<and> array_equal out data"
proof -
  let ?org = "(Some (int (nrows data) div 2), Some (int (ncols data) div 2))"
  have o: "(Some (fst (find_origin_by_center_of_image data)),
            Some (snd (find_origin_by_center_of_image data))) = whole_origin ?org"
    by (simp add: find_origin_by_center_of_image_def whole_origin_def)
  have sym: "\<exists>c. component ?org a = Some c \<and> 0 \<le> c \<and> int (shape data a) = 2 * c + 1" for a
  proof (cases a)
    case Vertical
    have "int (nrows data) = 2 * (int (nrows data) div 2) + 1"
      using assms(2) by presburger
    then show ?thesis
      using Vertical by (simp add: component_def shape_def)
  next
    case Horizontal
    have "int (ncols data) = 2 * (int (ncols data) div 2) + 1"
      using assms(3) by presburger
    then show ?thesis
      using Horizontal by (simp add: component_def shape_def)
  qed
  show ?thesis
    unfolding o by (rule centred_noop [OF assms(1) sym assms(5)])
qed

text \<open>An instance: the 5 by 5 sample, whose centre is \<open>(2, 2)\<close>, under \<open>'valid_region'\<close>.\<close>

theorem image_center_origin_is_noop_witness:
  "rect img5 \<and> odd (nrows img5) \<and> odd (ncols img5) \<and> nrows img5 = ncols img5
   \<and> ''valid_region'' \<in> {''maintain_size'', ''valid_region'', ''maintain_data''}
   \<and> find_origin_by_center_of_image img5 = (2, 2)
   \<and> (\<exists>out h'. set_center nearest_shift 1 img5 (Some 2, Some 2) ''valid_region''
                  {Vertical, Horizontal} 3 = Inr (out, h')
        \<and> array_equal out img5)"
proof -
  have n: "odd (nrows img5)" "odd (ncols img5)" "nrows img5 = ncols img5"
    by (simp_all add: nrows_def img5_def)
  have c: "''valid_region'' \<in> {''maintain_size'', ''valid_region'', ''maintain_data''}"
    by simp
  have f: "find_origin_by_center_of_image img5 = (2, 2)"
    by (simp add: find_origin_by_center_of_image_def nrows_def img5_def)
  from image_center_origin_is_noop [OF rect_img5 n c, of nearest_shift 1 "{Vertical, Horizontal}" 3]
  show ?thesis
    unfolding f using rect_img5 n by simp
qed

section \<open>Extent of the cropped image\<close>

lemma shape_getitem:
  "shape (getitem data (sv, sh)) a
     = slice_len (case a of Vertical \<Rightarrow> sv | Horizontal \<Rightarrow> sh) (shape data a)"
  by (cases a) (simp_all add: shape_def nrows_getitem ncols_getitem)

lemma shape_np_copy: "shape (fst (np_copy h v)) a = shape v a"
  by (cases a) (simp_all add: shape_def np_copy_def nrows_def)

lemma shape_padded:
  "shape (padded h data b0 a0 b1 a1) a
     = (case a of Vertical \<Rightarrow> b0 + nrows data + a0 | Horizontal \<Rightarrow> b1 + ncols data + a1)"
  by (cases a) (simp_all add: shape_def nrows_padded ncols_padded)

lemma valid_slice_inside:
  assumes "a \<in> axes" "component org a = Some c"
    and "0 \<le> absolute (shape data a) c" "absolute (shape data a) c < int (shape data a)"
  shows "int (slice_start (valid_slice data axes org a) (shape data a))
           = absolute (shape data a) c
               - min (absolute (shape data a) c) (mirror (shape data a) (absolute (shape data a) c))"
    and "int (slice_len (valid_slice data axes org a) (shape data a))
           = 2 * min (absolute (shape data a) c)
                     (mirror (shape data a) (absolute (shape data a) c)) + 1"
  using assms
  by (auto simp: valid_slice_def Let_def slice_len_def slice_index_def mirror_def min_def)

lemma pad_widths:
  assumes "a \<in> axes" "component org a = Some c"
  shows "int (pad_before data axes org a)
           = max (absolute (shape data a) c) (mirror (shape data a) (absolute (shape data a) c))
               - absolute (shape data a) c"
    and "int (pad_after data axes org a)
           = max (absolute (shape data a) c) (mirror (shape data a) (absolute (shape data a) c))
               - mirror (shape data a) (absolute (shape data a) c)"
  using assms by (auto simp: pad_before_def pad_after_def Let_def)

text \<open>
  Claim C10, amended.  For every image and every whole-pixel origin, on each active axis
  (\<open>c0\<close> the absolute origin, \<open>m\<close> its mirror):
  \<^item> with \<open>crop = 'maintain_data'\<close> the output has the odd length \<open>2 * max c0 m + 1\<close> and
    the origin, moved by the padding before it, is at the centre index of the output;
  \<^item> with \<open>crop = 'valid_region'\<close> the same holds with \<open>min c0 m\<close>, the origin moved by
    the start of the slice, whenever the origin lies inside the image on that axis
    (\<open>0 \<le> c0 < shape\<close>).
\<close>

theorem cropped_axis_is_centred:
  assumes "a \<in> axes" and "component org a = Some c"
    and "c0 = absolute (shape data a) c" and "m = mirror (shape data a) c0"
  shows "(0 \<le> c0 \<and> c0 < int (shape data a) \<longrightarrow>
            (\<exists>out h'.
               set_center sh h data (whole_origin org) ''valid_region'' axes order = Inr (out, h')
             \<and> int (shape out a) = 2 * min c0 m + 1
             \<and> odd (shape out a)
             \<and> center_of out a = min c0 m
             \<and> c0 - int (slice_start (valid_slice data axes org a) (shape data a))
                 = center_of out a))
       \<and> (\<exists>out h'.
               set_center sh h data (whole_origin org) ''maintain_data'' axes order = Inr (out, h')
             \<and> int (shape out a) = 2 * max c0 m + 1
             \<and> odd (shape out a)
             \<and> center_of out a = max c0 m
             \<and> c0 + int (pad_before data axes org a) = center_of out a)"
proof (intro conjI impI)
  assume inside: "0 \<le> c0 \<and> c0 < int (shape data a)"
  let ?out = "fst (np_copy h (getitem data (valid_slice data axes org Vertical,
                                           valid_slice data axes org Horizontal)))"
  have run: "set_center sh h data (whole_origin org) ''valid_region'' axes order
               = Inr (?out, Suc h)"
    by (simp add: set_center_valid_region_whole np_copy_def)
  have in1: "0 \<le> absolute (shape data a) c" "absolute (shape data a) c < int (shape data a)"
    using inside assms(3) by simp_all
  have "shape ?out a = slice_len (valid_slice data axes org a) (shape data a)"
    unfolding shape_np_copy shape_getitem by (cases a) simp_all
  with valid_slice_inside [OF assms(1,2) in1] assms(3,4)
  have len: "int (shape ?out a) = 2 * min c0 m + 1"
    and start: "int (slice_start (valid_slice data axes org a) (shape data a)) = c0 - min c0 m"
    by simp_all
  have odd: "odd (shape ?out a)"
  proof -
    have "odd (int (shape ?out a))" unfolding len by simp
    then show ?thesis by simp
  qed
  have centre: "center_of ?out a = min c0 m"
    unfolding center_of_def len by simp
  show "\<exists>out h'.
          set_center sh h data (whole_origin org) ''valid_region'' axes order = Inr (out, h')
        \<and> int (shape out a) = 2 * min c0 m + 1
        \<and> odd (shape out a)
        \<and> center_of out a = min c0 m
        \<and> c0 - int (slice_start (valid_slice data axes org a) (shape data a)) = center_of out a"
    using run len odd centre start by (intro exI [of _ ?out] exI [of _ "Suc h"]) simp
next
  let ?out = "padded h data (pad_before data axes org Vertical) (pad_after data axes org Vertical)
                (pad_before data axes org Horizontal) (pad_after data axes org Horizontal)"
  have run: "set_center sh h data (whole_origin org) ''maintain_data'' axes order
               = Inr (?out, Suc h)"
    by (simp add: set_center_maintain_data_whole np_pad_nat)
  have "shape ?out a = pad_before data axes org a + shape data a + pad_after data axes org a"
    unfolding shape_padded by (cases a) (simp_all add: shape_def)
  then have "int (shape ?out a)
      = int (pad_before data axes org a) + int (shape data a) + int (pad_after data axes org a)"
    by simp
  with pad_widths [OF assms(1,2), of data] assms(3,4)
  have len: "int (shape ?out a) = 2 * max c0 m + 1"
    and before: "int (pad_before data axes org a) = max c0 m - c0"
    by (simp_all add: mirror_def)
  have odd: "odd (shape ?out a)"
  proof -
    have "odd (int (shape ?out a))" unfolding len by simp
    then show ?thesis by simp
  qed
  have centre: "center_of ?out a = max c0 m"
    unfolding center_of_def len by simp
  show "\<exists>out h'.
          set_center sh h data (whole_origin org) ''maintain_data'' axes order = Inr (out, h')
        \<and> int (shape out a) = 2 * max c0 m + 1
        \<and> odd (shape out a)
        \<and> center_of out a = max c0 m
        \<and> c0 + int (pad_before data axes org a) = center_of out a"
    using run len odd centre before by (intro exI [of _ ?out] exI [of _ "Suc h"]) simp
qed


text \<open>An instance: the rows of the 5 by 5 sample with origin \<open>(1, 3)\<close>.\<close>

theorem cropped_axis_is_centred_witness:
  "Vertical \<in> {Vertical, Horizontal}
   \<and> component (Some 1, Some 3) Vertical = Some (1::int)
   \<and> absolute (shape img5 Vertical) 1 = 1 \<and> mirror (shape img5 Vertical) 1 = 3
   \<and> 0 \<le> (1::int) \<and> 1 < int (shape img5 Vertical)
   \<and> (\<exists>out h'. set_center nearest_shift 1 img5 (whole_origin (Some 1, Some 3)) ''valid_region''
                  {Vertical, Horizontal} 3 = Inr (out, h')
        \<and> int (shape out Vertical) = 3 \<and> center_of out Vertical = 1)
   \<and> (\<exists>out h'. set_center nearest_shift 1 img5 (whole_origin (Some 1, Some 3)) ''maintain_data''
                  {Vertical, Horizontal} 3 = Inr (out, h')
        \<and> int (shape out Vertical) = 7 \<and> center_of out Vertical = 3)"
proof -
  have a1: "Vertical \<in> {Vertical, Horizontal}" by simp
  have a2: "component (Some 1, Some 3) Vertical = Some (1::int)" by (simp add: component_def)
  have n: "shape img5 Vertical = 5" by (simp add: shape_def nrows_def img5_def)
  have a3: "1 = absolute (shape img5 Vertical) 1" by (simp add: absolute_def)
  have a4: "3 = mirror (shape img5 Vertical) 1" by (simp add: mirror_def n)
  note inst = cropped_axis_is_centred [OF a1 a2 a3 a4, where sh = nearest_shift and h = 1
      and order = 3]
  from inst have "(\<exists>out h'. set_center nearest_shift 1 img5 (whole_origin (Some 1, Some 3))
                  ''valid_region'' {Vertical, Horizontal} 3 = Inr (out, h')
                \<and> int (shape out Vertical) = 3 \<and> center_of out Vertical = 1)
           \<and> (\<exists>out h'. set_center nearest_shift 1 img5 (whole_origin (Some 1, Some 3))
                  ''maintain_data'' {Vertical, Horizontal} 3 = Inr (out, h')
                \<and> int (shape out Vertical) = 7 \<and> center_of out Vertical = 3)"
    unfolding n by (simp del: One_nat_def) blast
  then show ?thesis
    using a1 a2 a3 [symmetric] a4 [symmetric] by (simp add: n)
qed

text \<open>
  Claim C10 as stated fails for an origin outside the image: with origin row 7 in a
  5 by 5 image, \<open>d = min(7, -3) = -3\<close>, the slice \<open>[10 : 5]\<close> is empty, and the output
  has no row: its length is neither odd nor \<open>2 * d + 1\<close>.
\<close>

theorem valid_region_outside_counterexample:
  "set_center nearest_shift 1 img5 (whole_origin (Some 7, Some 2)) ''valid_region''
     {Vertical, Horizontal} 3 = Inr (\<lparr>buf = 1, ncols = 5, cells = []\<rparr>, 2)
   \<and> absolute (shape img5 Vertical) 7 = 7
   \<and> min 7 (mirror (shape img5 Vertical) 7) = - 3"
proof -
  have n: "shape img5 Vertical = 5" "shape img5 Horizontal = 5"
    by (simp_all add: shape_def nrows_def img5_def)
  have v: "valid_slice img5 {Vertical, Horizontal} (Some 7, Some 2) Vertical
             = Slice (Some 10) (Some 5)"
    by (simp add: valid_slice_def component_def absolute_def mirror_def n)
  have w: "valid_slice img5 {Vertical, Horizontal} (Some 7, Some 2) Horizontal
             = Slice (Some 0) (Some 5)"
    by (simp add: valid_slice_def component_def absolute_def mirror_def n)
  have g: "getitem img5 (Slice (Some 10) (Some 5), Slice (Some 0) (Some 5))
             = \<lparr>buf = 0, ncols = 5, cells = []\<rparr>"
    by (simp add: getitem_def img5_def slice_list_def slice_len_def slice_index_def)
  show ?thesis
    by (simp add: set_center_valid_region_whole v w g np_copy_def absolute_def mirror_def n)
qed

section \<open>Properties of \<open>find_origin_by_slice\<close>\<close>

lemma axis_slices_img3: "axis_slices img3 (0, - 1) 10 = ([8], [8], [8], [8])"
  by code_simp

text \<open>
  Claim C8.  \<open>find_origin_by_slice\<close> raises if and only if the minimiser reports failure
  on a requested axis.  The error is the \<open>RuntimeError\<close> of the first such axis: it names
  the axis and carries the minimiser's result; no origin is returned and no offset is
  defaulted.
\<close>

theorem slice_fit_failure_raises:
  assumes "axis_slices IM rr sw = (t, b, l, r)"
  shows "(isl (find_origin_by_slice minimize IM sw rr axis) \<longleftrightarrow>
            (Vertical \<in> axis \<and> \<not> success (minimize t b))
          \<or> (Horizontal \<in> axis \<and> \<not> success (minimize l r)))
       \<and> (Vertical \<in> axis \<and> \<not> success (minimize t b) \<longrightarrow>
            find_origin_by_slice minimize IM sw rr axis
              = Inl (RuntimeError ''fit failure: axis = 0, zero shift set''
                       (Some (minimize t b))))
       \<and> ((Vertical \<notin> axis \<or> success (minimize t b))
            \<and> Horizontal \<in> axis \<and> \<not> success (minimize l r) \<longrightarrow>
            find_origin_by_slice minimize IM sw rr axis
              = Inl (RuntimeError ''fit failure: axis = 1, zero shift set''
                       (Some (minimize l r))))"
  unfolding find_origin_by_slice_def Let_def assms
  by (simp add: slice_offset_def)

text \<open>
  An instance: on the 3 by 3 sample a failing fit for axis 1 raises with that fit, and a
  converging fit does not raise.
\<close>

theorem slice_fit_failure_raises_witness:
  "axis_slices img3 (0, - 1) 10 = ([8], [8], [8], [8])
   \<and> isl (find_origin_by_slice failed_fit img3 10 (0, - 1) {Horizontal})
   \<and> Horizontal \<in> {Horizontal} \<and> \<not> success (failed_fit [8] [8])
   \<and> find_origin_by_slice failed_fit img3 10 (0, - 1) {Horizontal}
       = Inl (RuntimeError ''fit failure: axis = 1, zero shift set'' (Some (failed_fit [8] [8])))
   \<and> \<not> isl (find_origin_by_slice converged_fit img3 10 (0, - 1) {Vertical, Horizontal})"
proof -
  note f = slice_fit_failure_raises [OF axis_slices_img3, of failed_fit "{Horizontal}"]
  note g = slice_fit_failure_raises [OF axis_slices_img3, of converged_fit "{Vertical, Horizontal}"]
  have s: "\<not> success (failed_fit [8] [8])" "success (converged_fit [8] [8])"
    by (simp_all add: failed_fit_def converged_fit_def)
  show ?thesis
    using f g s axis_slices_img3 by simp
qed

text \<open>
  Claim C3, amended.  When the minimiser converges on every requested axis,
  \<open>find_origin_by_slice\<close> returns \<open>(r2 - rowOffset, c2 - colOffset)\<close> with
  \<open>r2 = rows // 2\<close> and \<open>c2 = cols // 2\<close>, where the offset of a requested axis is \<open>-s/2\<close>
  for the minimising shift \<open>s\<close> and the offset of an axis not requested is 0.
\<close>

theorem slice_origin_from_floor_center:
  assumes "axis_slices IM rr sw = (t, b, l, r)"
    and "Vertical \<in> axis \<longrightarrow> success (minimize t b)"
    and "Horizontal \<in> axis \<longrightarrow> success (minimize l r)"
  shows "find_origin_by_slice minimize IM sw rr axis =
           Inr (of_int (int (nrows IM) div 2)
                  - requested_offset (Vertical \<in> axis) (minimize t b),
                of_int (int (ncols IM) div 2)
                  - requested_offset (Horizontal \<in> axis) (minimize l r))
       \<and> requested_offset (Vertical \<in> axis) (minimize t b)
           = (if Vertical \<in> axis then - x (minimize t b) / 2 else 0)
       \<and> requested_offset (Horizontal \<in> axis) (minimize l r)
           = (if Horizontal \<in> axis then - x (minimize l r) / 2 else 0)"
  unfolding find_origin_by_slice_def Let_def assms(1)
  using assms(2,3) by (simp add: slice_offset_def requested_offset_def)

text \<open>
  An instance: on the 3 by 3 sample with only axis 0 requested the origin is \<open>(1, 1)\<close>.
\<close>

theorem slice_origin_from_floor_center_witness:
  "axis_slices img3 (0, - 1) 10 = ([8], [8], [8], [8])
   \<and> success (converged_fit [8] [8])
   \<and> find_origin_by_slice converged_fit img3 10 (0, - 1) {Vertical} = Inr (1, 1)"
proof -
  have s: "success (converged_fit [8] [8])" "x (converged_fit [8] [8]) = 0"
    by (simp_all add: converged_fit_def)
  have a: "Vertical \<in> {Vertical} \<longrightarrow> success (converged_fit [8] [8])"
          "Horizontal \<in> {Vertical} \<longrightarrow> success (converged_fit [8] [8])"
    using s by simp_all
  have n: "nrows img3 = 3" "ncols img3 = 3"
    by (simp_all add: nrows_def img3_def)
  from slice_origin_from_floor_center [where minimize = converged_fit and axis = "{Vertical}",
      OF axis_slices_img3 a]
  show ?thesis
    using s axis_slices_img3 by (simp add: n requested_offset_def)
qed

text \<open>
  Claim C3 as stated measures from \<open>rows // 2 + rows % 2\<close>, the centre of \<open>axis_slices\<close>.
  On the 3 by 3 sample that gives \<open>(2, 2)\<close>, while the function returns \<open>(1, 1)\<close>.
\<close>

theorem slice_origin_counterexample:
  "find_origin_by_slice converged_fit img3 10 (0, - 1) {Vertical, Horizontal} = Inr (1, 1)
   \<and> claimed_slice_origin converged_fit img3 10 (0, - 1) {Vertical, Horizontal} = (2, 2)
   \<and> find_origin_by_slice converged_fit img3 10 (0, - 1) {Vertical, Horizontal}
       \<noteq> Inr (claimed_slice_origin converged_fit img3 10 (0, - 1) {Vertical, Horizontal})"
proof -
  have n: "nrows img3 = 3" "ncols img3 = 3"
    by (simp_all add: nrows_def img3_def)
  have f: "find_origin_by_slice converged_fit img3 10 (0, - 1) {Vertical, Horizontal} = Inr (1, 1)"
    by (simp add: find_origin_by_slice_def axis_slices_img3 slice_offset_def converged_fit_def n)
  have c: "claimed_slice_origin converged_fit img3 10 (0, - 1) {Vertical, Horizontal} = (2, 2)"
    by (simp add: claimed_slice_origin_def axis_slices_img3 slice_extractor_center_def
          requested_offset_def converged_fit_def n)
  show ?thesis
    unfolding f c by simp
qed

section \<open>Inputs where the code leaves its documented behaviour\<close>

lemma shape_img5: "nrows img5 = 5" "ncols img5 = 5" "shape img5 a = 5"
  by (cases a; simp add: shape_def nrows_def img5_def)+

lemma py_int_half: "py_int (5 / 2) = 2"
proof -
  have "\<lfloor>5 / 2 :: rat\<rfloor> = 2" by (rule floor_unique) simp_all
  then show ?thesis by (simp add: py_int_def)
qed

lemma preprocess_excluded_fraction:
  "preprocess img5 (Some 2, Some (5 / 2)) {Vertical} 3 =
     \<lparr>p_axes = {Vertical},
      p_origin = (\<lambda>a. Some 2),
      p_subpixel = (\<lambda>a. case a of Vertical \<Rightarrow> 0 | Horizontal \<Rightarrow> 1 / 2),
      p_mirror = (\<lambda>a. Some 2),
      p_order = 3\<rparr>"
  by (auto simp: preprocess_def preprocess_axis_def component_def Let_def shape_img5 py_int_half
        py_int_of_int [of 2, simplified] fun_eq_iff axis_neq split: axis.splits)

lemma nrows_zeros:
  "nrows \<lparr>buf = h, ncols = c, cells = replicate r (replicate c 0)\<rparr> = r"
  by (simp add: nrows_def)

lemma trim_image_img47:
  "trim_image img47 False True =
     \<lparr>buf = 0, ncols = 5,
      cells = [[12, 13, 14, 15, 16], [22, 23, 24, 25, 26], [32, 33, 34, 35, 36],
               [42, 43, 44, 45, 46]]\<rparr>"
  by (simp add: trim_image_def img47_def nrows_def getitem_def slice_list_def slice_len_def
        slice_index_def Let_def)

text \<open>
  Claim C7 at \<open>axes = 0\<close>, \<open>origin = (2, 2.5)\<close>, \<open>order = 3\<close> on a 5 by 5 image.  The
  only active axis is axis 0 and its fractional part is zero, so the claim has the order
  forced to 0.  The loop of \<open>set_center\<close> also takes the fractional part of axis 1, which
  is excluded by \<open>axes\<close>: \<open>order\<close> stays 3 and \<open>'maintain_size'\<close> takes the interpolating
  path.
\<close>

theorem order_kept_for_excluded_axis:
  "p_axes (preprocess img5 (Some 2, Some (5 / 2)) {Vertical} 3) = {Vertical}
   \<and> p_subpixel (preprocess img5 (Some 2, Some (5 / 2)) {Vertical} 3) Vertical = 0
   \<and> p_order (preprocess img5 (Some 2, Some (5 / 2)) {Vertical} 3) = 3
   \<and> set_center sh h img5 (Some 2, Some (5 / 2)) ''maintain_size'' {Vertical} 3
       = maintain_size_fractional sh h img5 (preprocess img5 (Some 2, Some (5 / 2)) {Vertical} 3)"
  by (simp add: set_center_def Let_def preprocess_excluded_fraction)

text \<open>
  Claim C1 at the same input.  Axis 1 is excluded by \<open>axes\<close>, so the claim has its shape
  and content unchanged.  With \<open>'valid_region'\<close> the image is shifted by half a pixel along
  axis 1 and both fractional ends are cut: 4 columns instead of 5.  With
  \<open>'maintain_data'\<close> the shifted image keeps one padding column: 6 columns.  This holds
  for every shift collaborator.
\<close>

theorem excluded_axis_is_resized:
  "Horizontal \<notin> {Vertical}
   \<and> ncols img5 = 5
   \<and> (\<exists>out h'. set_center sh h img5 (Some 2, Some (5 / 2)) ''valid_region'' {Vertical} 3
                  = Inr (out, h') \<and> ncols out = 4)
   \<and> (\<exists>out h'. set_center sh h img5 (Some 2, Some (5 / 2)) ''maintain_data'' {Vertical} 3
                  = Inr (out, h') \<and> ncols out = 6)"
  by (simp add: set_center_def Let_def preprocess_excluded_fraction subpixel_shift_def
        np_pad_def ndimage_shift_def subpixel_cut_def crop_valid_region_def crop_maintain_data_def
        both_axes_def axis_entry_def getitem_def np_copy_def shape_img5
        slice_len_def slice_index_def)

text \<open>
  Claim C4 at \<open>origin = (8, 2)\<close> on a 5 by 5 image, \<open>crop = 'maintain_size'\<close> (whole-pixel
  path).  The shift is \<open>-6\<close> rows, more than the image has: the source region
  \<open>[6 : 5]\<close> is empty, the destination region \<open>[0 : -1]\<close> has four rows, and the assignment
  raises \<open>ValueError\<close> where the claim has the data dropped without an error.
\<close>

theorem large_shift_raises:
  "set_center sh h img5 (whole_origin (Some 8, Some 2)) ''maintain_size'' {Vertical, Horizontal} 3
     = Inl (ValueError ''could not broadcast input array'')"
  by (simp add: set_center_maintain_size_whole maintain_size_whole_def both_axes_def
        axis_entry_whole component_def absolute_def shape_img5 center_of_def
        whole_pixel_regions_def np_zeros_like_def setitem_def broadcast_to_def
        nrows_getitem ncols_getitem nrows_zeros slice_len_def slice_index_def Let_def)

text \<open>
  Claim C2 at a 4 by 7 image with \<open>odd_size = False\<close> and \<open>square = True\<close>: the columns
  are trimmed by \<open>(7 - 4) // 2 = 1\<close> on each side, which leaves 4 by 5, and \<open>center_image\<close>
  (origin \<open>(2, 3)\<close>, \<open>'maintain_size'\<close>) returns an image of 4 rows and 5 columns.
\<close>

theorem center_image_not_square:
  "nrows img47 = 4 \<and> ncols img47 = 7
   \<and> nrows (trim_image img47 False True) = 4 \<and> ncols (trim_image img47 False True) = 5
   \<and> center_image sh minimize numeric h img47 (Coordinates (Some 2, Some 3)) False True
         {Vertical, Horizontal} ''maintain_size'' kw
       = Inr (\<lparr>buf = h, ncols = 5,
                cells = [[23, 24, 25, 26, 0], [33, 34, 35, 36, 0], [43, 44, 45, 46, 0],
                         [0, 0, 0, 0, 0]]\<rparr>, Suc h)"
proof -
  let ?t = "\<lparr>buf = 0, ncols = 5,
      cells = [[12, 13, 14, 15, 16], [22, 23, 24, 25, 26], [32, 33, 34, 35, 36],
               [42, 43, 44, 45, (46::int)]]\<rparr>"
  have n: "nrows ?t = 4" "shape ?t Vertical = 4" "shape ?t Horizontal = 5"
    by (simp_all add: nrows_def shape_def)
  have o: "(Some 2, Some 3) = whole_origin (Some 2, Some 3)"
    by (simp add: whole_origin_def)
  have g: "getitem ?t (Slice (Some 1) (Some 4), Slice (Some 1) (Some 5))
             = \<lparr>buf = 0, ncols = 4,
                cells = [[23, 24, 25, 26], [33, 34, 35, 36], [43, 44, 45, 46]]\<rparr>"
    by (simp add: getitem_def slice_list_def slice_len_def slice_index_def)
  have s: "set_center sh h ?t (whole_origin (Some 2, Some 3)) ''maintain_size''
             {Vertical, Horizontal} 3
           = Inr (\<lparr>buf = h, ncols = 5,
                cells = [[23, 24, 25, 26, 0], [33, 34, 35, 36, 0], [43, 44, 45, 46, 0],
                         [0, 0, 0, 0, 0]]\<rparr>, Suc h)"
    by (simp add: set_center_maintain_size_whole maintain_size_whole_def both_axes_def
          axis_entry_whole component_def absolute_def n center_of_def
          whole_pixel_regions_def g np_zeros_like_def setitem_def broadcast_to_def
          nrows_zeros slice_len_def slice_index_def Let_def)
       (simp add: nrows_def numeral_eq_Suc)
  show ?thesis
    unfolding center_image_def Let_def trim_image_img47
    using s by (simp add: nrows_def img47_def o [symmetric])
qed

section \<open>The first loop of \<open>set_center\<close> in general\<close>

lemma preprocess_subpixel:
  "p_subpixel (preprocess data origin axes order) a =
     (case component origin a of
        None \<Rightarrow> 0
      | Some v \<Rightarrow> if order \<noteq> 0 then fraction (shape data a) v else 0)"
  by (cases a; cases "component origin Vertical"; cases "component origin Horizontal")
     (simp_all add: preprocess_def preprocess_axis_def Let_def fraction_def)

lemma preprocess_axes:
  "p_axes (preprocess data origin axes order) = {a \<in> axes. component origin a \<noteq> None}"
  apply (cases "component origin Vertical"; cases "component origin Horizontal")
     apply (auto simp: preprocess_def preprocess_axis_def Let_def axis_neq)
   apply (metis axis.exhaust)+
  done

lemma preprocess_order:
  "p_order (preprocess data origin axes order) =
     (if p_subpixel (preprocess data origin axes order) Vertical = 0
         \<and> p_subpixel (preprocess data origin axes order) Horizontal = 0
      then 0 else order)"
  by (cases "component origin Vertical"; cases "component origin Horizontal")
     (simp_all add: preprocess_def preprocess_axis_def Let_def)

lemma order_forced_iff:
  "p_order (preprocess data origin axes order) = 0 \<longleftrightarrow>
     order = 0
   \<or> (\<forall>a. case component origin a of None \<Rightarrow> True
                                     | Some v \<Rightarrow> fraction (shape data a) v = 0)"
  unfolding preprocess_order preprocess_subpixel axis_UNIV
  by (auto split: option.splits)

section \<open>Assignment to a region\<close>

lemma broadcast_to_same:
  "nrows v = r \<Longrightarrow> ncols v = c \<Longrightarrow> broadcast_to r c v = Inr (cells v)"
  by (simp add: broadcast_to_def)

lemma broadcast_to_rect:
  assumes "broadcast_to r c v = Inr b" "rect v"
  shows "length b = r \<and> (\<forall>row\<in>set b. length row = c)"
proof -
  let ?wide = "map (\<lambda>row. if ncols v = c then row else replicate c (row ! 0)) (cells v)"
  have ok: "(nrows v = r \<or> nrows v = 1) \<and> (ncols v = c \<or> ncols v = 1)"
    and b: "b = (if nrows v = r then ?wide else replicate r (?wide ! 0))"
    using assms(1) by (auto simp: broadcast_to_def Let_def split: if_splits)
  have w: "\<forall>row\<in>set ?wide. length row = c"
    using assms(2) by (auto simp: rect_def list_all_iff)
  have lw: "length ?wide = nrows v" by (simp add: nrows_def)
  show ?thesis
  proof (cases "nrows v = r")
    case True
    then show ?thesis using b w lw by simp
  next
    case False
    then have "nrows v = 1" using ok by simp
    then have "?wide ! 0 \<in> set ?wide" using lw by (intro nth_mem) simp
    then have "length (?wide ! 0) = c" using w by blast
    then show ?thesis using b False by simp
  qed
qed

lemma setitem_shape:
  assumes "setitem out ss v = Inr out'" "rect out" "rect v"
  shows "nrows out' = nrows out \<and> ncols out' = ncols out \<and> rect out' \<and> buf out' = buf out"
proof -
  let ?r0 = "slice_start (fst ss) (nrows out)" and ?rn = "slice_len (fst ss) (nrows out)"
  let ?c0 = "slice_start (snd ss) (ncols out)" and ?cn = "slice_len (snd ss) (ncols out)"
  obtain b where b: "broadcast_to ?rn ?cn v = Inr b"
    and o: "out' = out\<lparr>cells := take ?r0 (cells out)
                  @ map (\<lambda>(row, new). take ?c0 row @ new @ drop (?c0 + ?cn) row)
                        (zip (take ?rn (drop ?r0 (cells out))) b)
                  @ drop (?r0 + ?rn) (cells out)\<rparr>"
    using assms(1) by (auto simp: setitem_def Let_def split: sum.splits)
  from broadcast_to_rect [OF b assms(3)]
  have lb: "length b = ?rn" and wb: "\<forall>row\<in>set b. length row = ?cn" by auto
  have r: "?r0 + ?rn \<le> length (cells out)"
    using slice_len_le [of "fst ss" "nrows out"] by (simp add: nrows_def)
  have c: "?c0 + ?cn \<le> ncols out"
    by (rule slice_len_le)
  have rows: "\<forall>row\<in>set (cells out). length row = ncols out"
    using assms(2) by (simp add: rect_def list_all_iff)
  have n: "nrows out' = nrows out"
    unfolding o using r lb by (simp add: nrows_def)
  have mid: "length (take ?c0 row @ new @ drop (?c0 + ?cn) row) = ncols out"
    if "row \<in> set (cells out)" "new \<in> set b" for row new
    using that rows wb c by simp
  have "rect out'"
    unfolding o rect_def list_all_iff
  proof (clarsimp, elim disjE)
    fix row assume "row \<in> set (take ?r0 (cells out))"
    then show "length row = ncols out" using rows by (meson in_set_takeD)
  next
    fix row assume "row \<in> set (drop (?r0 + ?rn) (cells out))"
    then show "length row = ncols out" using rows by (meson in_set_dropD)
  next
    fix row
    assume "row \<in> (\<lambda>(row, new). take ?c0 row @ new @ drop (?c0 + ?cn) row)
                   ` set (zip (take ?rn (drop ?r0 (cells out))) b)"
    then obtain old new where z: "(old, new) \<in> set (zip (take ?rn (drop ?r0 (cells out))) b)"
      and e: "row = take ?c0 old @ new @ drop (?c0 + ?cn) old" by auto
    have "old \<in> set (cells out)" "new \<in> set b"
      using z by (meson set_zip_leftD in_set_takeD in_set_dropD, meson set_zip_rightD)
    then show "length row = ncols out" unfolding e by (rule mid)
  qed
  then show ?thesis using n o by simp
qed

section \<open>\<open>maintain_size\<close> in general\<close>

lemma rect_zeros:
  "rect \<lparr>buf = h, ncols = c, cells = replicate r (replicate c 0)\<rparr>"
  by (simp add: rect_def list_all_iff)

lemma maintain_size_whole_shape:
  assumes "maintain_size_whole h data s = Inr (out, h')" "rect data"
  shows "nrows out = nrows data \<and> ncols out = ncols data \<and> rect out \<and> buf out = h"
proof -
  let ?z = "\<lparr>buf = h, ncols = ncols data,
              cells = replicate (nrows data) (replicate (ncols data) (0::'a))\<rparr>"
  obtain src dst where st: "setitem ?z dst (getitem data src) = Inr out"
    using assms(1)
    by (auto simp: maintain_size_whole_def np_zeros_like_def split: sum.splits prod.splits)
  from setitem_shape [OF st rect_zeros rect_getitem [OF assms(2)]]
  show ?thesis by (simp add: nrows_zeros)
qed

lemma slice_len_inner: "slice_len (Slice (Some 1) (Some (- 1))) (Suc (Suc n)) = n"
  by (simp add: slice_len_def slice_index_def)

lemma maintain_size_fractional_shape:
  assumes "maintain_size_fractional sh h data s = Inr (out, h')" "rect data"
    and "shape_preserving sh"
  shows "nrows out = nrows data \<and> ncols out = ncols data \<and> rect out \<and> buf out = Suc h"
proof -
  let ?p = "padded h data 1 1 1 1"
  have pad: "np_pad h data ((1, 1), (1, 1)) = Inr (?p, Suc h)"
    using np_pad_nat [of h data 1 1 1 1] by simp
  let ?d = "(fractional_delta data s Vertical, fractional_delta data s Horizontal)"
  let ?f = "\<lparr>buf = Suc h, ncols = ncols ?p, cells = sh (cells ?p) ?d (p_order s)\<rparr>"
  have out: "out = getitem ?f (Slice (Some 1) (Some (- 1)), Slice (Some 1) (Some (- 1)))"
    using assms(1) unfolding maintain_size_fractional_def pad
    by (auto simp: ndimage_shift_def split: if_splits)
  have len: "map length (cells ?f) = map length (cells ?p)"
    using assms(3) by (simp add: shape_preserving_def)
  have nf: "nrows ?f = Suc (nrows data + 1)"
    using arg_cong [OF len, of length] nrows_padded [of h data 1 1 1 1]
    by (simp add: nrows_def)
  have rp: "rect ?p" by (rule rect_padded [OF assms(2)])
  have rf: "rect ?f"
  proof -
    have "\<forall>r\<in>set (cells ?p). length r = ncols ?p"
      using rp by (simp add: rect_def list_all_iff)
    then have "\<forall>n\<in>set (map length (cells ?p)). n = ncols ?p" by simp
    then have "\<forall>n\<in>set (map length (cells ?f)). n = ncols ?p" unfolding len .
    then show ?thesis by (simp add: rect_def list_all_iff)
  qed
  have nc: "ncols ?f = Suc (ncols data + 1)"
    by (simp add: ncols_padded)
  let ?in = "Slice (Some 1) (Some (- 1))"
  have "nrows out = slice_len ?in (nrows ?f)"
    unfolding out nrows_getitem by simp
  then have n1: "nrows out = nrows data"
    unfolding nf by (simp add: slice_len_inner)
  have "ncols out = slice_len ?in (ncols ?f)"
    unfolding out ncols_getitem by simp
  then have n2: "ncols out = ncols data"
    unfolding nc by (simp add: slice_len_inner)
  have r: "rect out"
    unfolding out by (rule rect_getitem [OF rf])
  have b: "buf out = Suc h"
    unfolding out buf_getitem by simp
  show ?thesis using n1 n2 r b by simp
qed

lemma maintain_size_keeps_shape:
  assumes "set_center sh h data origin ''maintain_size'' axes order = Inr (out, h')"
    and "rect data" and "shape_preserving sh" and "buf data < h"
  shows "nrows out = nrows data \<and> ncols out = ncols data \<and> rect out \<and> buf out \<noteq> buf data"
proof (cases "p_order (preprocess data origin axes order) = 0")
  case True
  then have "maintain_size_whole h data (preprocess data origin axes order) = Inr (out, h')"
    using assms(1) by (simp add: set_center_def Let_def)
  from maintain_size_whole_shape [OF this assms(2)] assms(4) show ?thesis by simp
next
  case False
  then have "maintain_size_fractional sh h data (preprocess data origin axes order)
               = Inr (out, h')"
    using assms(1) by (simp add: set_center_def Let_def)
  from maintain_size_fractional_shape [OF this assms(2,3)] assms(4) show ?thesis by simp
qed

lemma setitem_cell:
  assumes "rect out" "rect v"
    and nv: "nrows v = slice_len (fst ss) (nrows out)" "ncols v = slice_len (snd ss) (ncols out)"
    and i: "i < nrows out" and j: "j < ncols out"
  shows "\<exists>out'. setitem out ss v = Inr out'
           \<and> cell out' i j =
               (if slice_start (fst ss) (nrows out) \<le> i
                   \<and> i < slice_start (fst ss) (nrows out) + nrows v
                   \<and> slice_start (snd ss) (ncols out) \<le> j
                   \<and> j < slice_start (snd ss) (ncols out) + ncols v
                then cell v (i - slice_start (fst ss) (nrows out))
                            (j - slice_start (snd ss) (ncols out))
                else cell out i j)"
proof -
  let ?r0 = "slice_start (fst ss) (nrows out)" and ?rn = "slice_len (fst ss) (nrows out)"
  let ?c0 = "slice_start (snd ss) (ncols out)" and ?cn = "slice_len (snd ss) (ncols out)"
  let ?C = "cells out" and ?B = "cells v"
  let ?f = "\<lambda>(row, new). take ?c0 row @ new @ drop (?c0 + ?cn) row"
  let ?M = "map ?f (zip (take ?rn (drop ?r0 ?C)) ?B)"
  let ?out' = "out\<lparr>cells := take ?r0 ?C @ ?M @ drop (?r0 + ?rn) ?C\<rparr>"
  have run: "setitem out ss v = Inr ?out'"
    using nv by (simp add: setitem_def Let_def broadcast_to_same)
  have r: "?r0 + ?rn \<le> length ?C"
    using slice_len_le [of "fst ss" "nrows out"] by (simp add: nrows_def)
  have c: "?c0 + ?cn \<le> ncols out" by (rule slice_len_le)
  have lB: "length ?B = ?rn" using nv(1) by (simp add: nrows_def)
  have lM: "length ?M = ?rn" using r lB by simp
  have li: "length (?C ! i) = ncols out" using rect_nth [OF assms(1) i] .
  consider (before) "i < ?r0" | (inside) "?r0 \<le> i" "i < ?r0 + ?rn" | (after) "?r0 + ?rn \<le> i"
    by linarith
  then have "cell ?out' i j =
               (if ?r0 \<le> i \<and> i < ?r0 + ?rn \<and> ?c0 \<le> j \<and> j < ?c0 + ?cn
                then cell v (i - ?r0) (j - ?c0) else cell out i j)"
  proof cases
    case before
    then have "(take ?r0 ?C @ ?M @ drop (?r0 + ?rn) ?C) ! i = ?C ! i"
      using r by (simp add: nth_append)
    then show ?thesis using before by (simp add: cell_def)
  next
    case inside
    have k: "i - ?r0 < ?rn" using inside by simp
    have "(take ?r0 ?C @ ?M @ drop (?r0 + ?rn) ?C) ! i = ?M ! (i - ?r0)"
    proof -
      have "length (take ?r0 ?C) = ?r0" using r by simp
      then show ?thesis
        using inside(1) k lM by (simp add: nth_append del: length_take length_map length_zip)
    qed
    also have "\<dots> = take ?c0 (?C ! i) @ ?B ! (i - ?r0) @ drop (?c0 + ?cn) (?C ! i)"
    proof -
      have kz: "i - ?r0 < length (zip (take ?rn (drop ?r0 ?C)) ?B)"
        using k r lB by simp
      have "?M ! (i - ?r0) = ?f (zip (take ?rn (drop ?r0 ?C)) ?B ! (i - ?r0))"
        using kz by (rule nth_map)
      also have "zip (take ?rn (drop ?r0 ?C)) ?B ! (i - ?r0)
            = (take ?rn (drop ?r0 ?C) ! (i - ?r0), ?B ! (i - ?r0))"
        using kz by simp
      also have "take ?rn (drop ?r0 ?C) ! (i - ?r0) = ?C ! i"
        using k r inside(1) by simp
      finally show ?thesis by simp
    qed
    finally have row: "(take ?r0 ?C @ ?M @ drop (?r0 + ?rn) ?C) ! i
        = take ?c0 (?C ! i) @ ?B ! (i - ?r0) @ drop (?c0 + ?cn) (?C ! i)" .
    have lb: "length (?B ! (i - ?r0)) = ?cn"
      using rect_nth [OF assms(2), of "i - ?r0"] k nv by simp
    show ?thesis
      unfolding cell_def using row inside li lb c j
      by (auto simp: nth_append)
  next
    case after
    have "(take ?r0 ?C @ ?M @ drop (?r0 + ?rn) ?C) ! i = ?C ! i"
    proof -
      have l1: "length (take ?r0 ?C) = ?r0" using r by simp
      have "(take ?r0 ?C @ ?M @ drop (?r0 + ?rn) ?C) ! i
              = (?M @ drop (?r0 + ?rn) ?C) ! (i - ?r0)"
        using after l1 by (simp add: nth_append del: length_take length_map length_zip)
      also have "\<dots> = drop (?r0 + ?rn) ?C ! (i - ?r0 - ?rn)"
        using after lM by (simp add: nth_append del: length_take length_map length_zip)
      also have "\<dots> = ?C ! i"
        using after r i by (simp add: nrows_def)
      finally show ?thesis .
    qed
    then show ?thesis using after by (simp add: cell_def)
  qed
  then show ?thesis using run nv by auto
qed

lemma whole_pixel_regions_bounds:
  assumes "\<bar>c - c0\<bar> \<le> int n"
  shows "slice_start (fst (whole_pixel_regions c n c0)) n = nat (c0 - c)"
    and "slice_len (fst (whole_pixel_regions c n c0)) n = n - nat \<bar>c - c0\<bar>"
    and "slice_start (snd (whole_pixel_regions c n c0)) n = nat (c - c0)"
    and "slice_len (snd (whole_pixel_regions c n c0)) n = n - nat \<bar>c - c0\<bar>"
  using assms
  by (auto simp: whole_pixel_regions_def Let_def slice_len_def slice_index_def max_def)

lemma region_cond:
  "\<bar>d\<bar> \<le> int n \<Longrightarrow> i < n \<Longrightarrow>
     (nat d \<le> i \<and> i < nat d + (n - nat \<bar>d\<bar>)) \<longleftrightarrow> (0 \<le> int i - d \<and> int i - d < int n)"
  by (cases "0 \<le> d") auto

lemma region_index:
  "0 \<le> int i - d \<Longrightarrow> nat (- d) + (i - nat d) = nat (int i - d)"
  by (cases "0 \<le> d") auto

lemma cell_zeros:
  "i < r \<Longrightarrow> j < c \<Longrightarrow> cell \<lparr>buf = h, ncols = c, cells = replicate r (replicate c 0)\<rparr> i j = 0"
  by (simp add: cell_def)

lemma maintain_size_whole_content:
  assumes "rect data"
    and small: "\<And>a. \<bar>shift_of data axes org a\<bar> \<le> int (shape data a)"
  shows "\<exists>out. set_center sh h data (whole_origin org) ''maintain_size'' axes order
                 = Inr (out, Suc h)
            \<and> nrows out = nrows data \<and> ncols out = ncols data
            \<and> (\<forall>i j. i < nrows data \<and> j < ncols data \<longrightarrow>
                  cell out i j =
                    (if 0 \<le> int i - shift_of data axes org Vertical
                        \<and> int i - shift_of data axes org Vertical < int (nrows data)
                        \<and> 0 \<le> int j - shift_of data axes org Horizontal
                        \<and> int j - shift_of data axes org Horizontal < int (ncols data)
                     then cell data (nat (int i - shift_of data axes org Vertical))
                                    (nat (int j - shift_of data axes org Horizontal))
                     else 0))"
proof -
  let ?s = "preprocess data (whole_origin org) axes order"
  let ?reg = "\<lambda>a. (case component org a of
                      None \<Rightarrow> (whole, whole)
                    | Some c \<Rightarrow> if a \<in> axes
                        then whole_pixel_regions (center_of data a) (shape data a)
                               (absolute (shape data a) c)
                        else (whole, whole))"
  let ?d = "shift_of data axes org"
  have bounds: "slice_start (fst (?reg a)) (shape data a) = nat (- ?d a)
              \<and> slice_len (fst (?reg a)) (shape data a) = shape data a - nat \<bar>?d a\<bar>
              \<and> slice_start (snd (?reg a)) (shape data a) = nat (?d a)
              \<and> slice_len (snd (?reg a)) (shape data a) = shape data a - nat \<bar>?d a\<bar>" for a
  proof (cases "component org a")
    case None
    then show ?thesis by (simp add: shift_of_def slice_whole)
  next
    case (Some c)
    show ?thesis
    proof (cases "a \<in> axes")
      case True
      have d: "?d a = center_of data a - absolute (shape data a) c"
        using Some True by (simp add: shift_of_def)
      have "\<bar>center_of data a - absolute (shape data a) c\<bar> \<le> int (shape data a)"
        using small [of a] unfolding d .
      from whole_pixel_regions_bounds [OF this] show ?thesis
        using Some True d by simp
    next
      case False
      then show ?thesis using Some by (simp add: shift_of_def slice_whole)
    qed
  qed
  have both: "both_axes (\<lambda>a. axis_entry ?s (whole, whole)
                 (\<lambda>c0 m. whole_pixel_regions (center_of data a) (shape data a) c0) a)
              = Inr (?reg Vertical, ?reg Horizontal)"
    by (simp add: both_axes_def axis_entry_whole)
  obtain s0 d0 where rv: "?reg Vertical = (s0, d0)" by (cases "?reg Vertical")
  obtain s1 d1 where rh: "?reg Horizontal = (s1, d1)" by (cases "?reg Horizontal")
  have bv: "slice_start s0 (nrows data) = nat (- ?d Vertical)"
           "slice_len s0 (nrows data) = nrows data - nat \<bar>?d Vertical\<bar>"
           "slice_start d0 (nrows data) = nat (?d Vertical)"
           "slice_len d0 (nrows data) = nrows data - nat \<bar>?d Vertical\<bar>"
    using bounds [of Vertical] unfolding rv by (simp_all add: shape_def del: of_nat_diff)
  have bh: "slice_start s1 (ncols data) = nat (- ?d Horizontal)"
           "slice_len s1 (ncols data) = ncols data - nat \<bar>?d Horizontal\<bar>"
           "slice_start d1 (ncols data) = nat (?d Horizontal)"
           "slice_len d1 (ncols data) = ncols data - nat \<bar>?d Horizontal\<bar>"
    using bounds [of Horizontal] unfolding rh by (simp_all add: shape_def)
  let ?z = "\<lparr>buf = h, ncols = ncols data,
              cells = replicate (nrows data) (replicate (ncols data) (0::'a))\<rparr>"
  let ?v = "getitem data (s0, s1)"
  have zr: "rect ?z" "nrows ?z = nrows data" "ncols ?z = ncols data"
    by (simp_all add: rect_zeros nrows_zeros)
  have vr: "rect ?v" by (rule rect_getitem [OF assms(1)])
  have nv: "nrows ?v = nrows data - nat \<bar>?d Vertical\<bar>"
           "ncols ?v = ncols data - nat \<bar>?d Horizontal\<bar>"
    by (simp_all add: nrows_getitem ncols_getitem bv bh)
  have nv': "nrows ?v = slice_len (fst (d0, d1)) (nrows ?z)"
            "ncols ?v = slice_len (snd (d0, d1)) (ncols ?z)"
    by (simp_all only: fst_conv snd_conv zr(2,3) nv bv(4) bh(4))
  obtain out where run: "setitem ?z (d0, d1) ?v = Inr out"
    using nv' by (simp add: setitem_def Let_def broadcast_to_same)
  from setitem_shape [OF run zr(1) vr] zr
  have sh_out: "nrows out = nrows data" "ncols out = ncols data" by simp_all
  have ms: "maintain_size_whole h data ?s = Inr (out, Suc h)"
    unfolding maintain_size_whole_def both rv rh
    using run by (simp add: np_zeros_like_def)
  have content: "cell out i j =
                    (if 0 \<le> int i - ?d Vertical \<and> int i - ?d Vertical < int (nrows data)
                        \<and> 0 \<le> int j - ?d Horizontal \<and> int j - ?d Horizontal < int (ncols data)
                     then cell data (nat (int i - ?d Vertical)) (nat (int j - ?d Horizontal))
                     else 0)"
    if ij: "i < nrows data \<and> j < ncols data" for i j
  proof -
    have i: "i < nrows ?z" and j: "j < ncols ?z" using ij zr by simp_all
    from setitem_cell [OF zr(1) vr nv' i j] obtain o' where
      o': "setitem ?z (d0, d1) ?v = Inr o'" and
      co: "cell o' i j =
             (if slice_start (fst (d0, d1)) (nrows ?z) \<le> i
                 \<and> i < slice_start (fst (d0, d1)) (nrows ?z) + nrows ?v
                 \<and> slice_start (snd (d0, d1)) (ncols ?z) \<le> j
                 \<and> j < slice_start (snd (d0, d1)) (ncols ?z) + ncols ?v
              then cell ?v (i - slice_start (fst (d0, d1)) (nrows ?z))
                          (j - slice_start (snd (d0, d1)) (ncols ?z))
              else cell ?z i j)"
      by blast
    have same: "o' = out" using o' run by simp
    have c: "cell out i j =
               (if nat (?d Vertical) \<le> i \<and> i < nat (?d Vertical) + nrows ?v
                   \<and> nat (?d Horizontal) \<le> j \<and> j < nat (?d Horizontal) + ncols ?v
                then cell ?v (i - nat (?d Vertical)) (j - nat (?d Horizontal))
                else cell ?z i j)"
      using co unfolding same fst_conv snd_conv zr(2,3) bv(3) bh(3) .
    have dv: "\<bar>?d Vertical\<bar> \<le> int (nrows data)" using small [of Vertical] by (simp add: shape_def)
    have dh: "\<bar>?d Horizontal\<bar> \<le> int (ncols data)"
      using small [of Horizontal] by (simp add: shape_def)
    have cond_v: "(nat (?d Vertical) \<le> i \<and> i < nat (?d Vertical) + nrows ?v)
                  \<longleftrightarrow> (0 \<le> int i - ?d Vertical \<and> int i - ?d Vertical < int (nrows data))"
      unfolding nv using region_cond [OF dv, of i] ij by simp
    have cond_h: "(nat (?d Horizontal) \<le> j \<and> j < nat (?d Horizontal) + ncols ?v)
                  \<longleftrightarrow> (0 \<le> int j - ?d Horizontal \<and> int j - ?d Horizontal < int (ncols data))"
      unfolding nv using region_cond [OF dh, of j] ij by simp
    show ?thesis
    proof (cases "0 \<le> int i - ?d Vertical \<and> int i - ?d Vertical < int (nrows data)
                \<and> 0 \<le> int j - ?d Horizontal \<and> int j - ?d Horizontal < int (ncols data)")
      case True
      then have inreg: "nat (?d Vertical) \<le> i \<and> i < nat (?d Vertical) + nrows ?v"
                       "nat (?d Horizontal) \<le> j \<and> j < nat (?d Horizontal) + ncols ?v"
        using cond_v cond_h by blast+
      have iv: "i - nat (?d Vertical) < nrows ?v" "j - nat (?d Horizontal) < ncols ?v"
        using inreg by auto
      have "cell ?v (i - nat (?d Vertical)) (j - nat (?d Horizontal))
              = cell data (nat (- ?d Vertical) + (i - nat (?d Vertical)))
                          (nat (- ?d Horizontal) + (j - nat (?d Horizontal)))"
          using cell_getitem [OF assms(1) iv] unfolding fst_conv snd_conv bv(1) bh(1) .
      moreover have "nat (- ?d Vertical) + (i - nat (?d Vertical)) = nat (int i - ?d Vertical)"
        using True by (intro region_index) simp
      moreover have "nat (- ?d Horizontal) + (j - nat (?d Horizontal))
                       = nat (int j - ?d Horizontal)"
        using True by (intro region_index) simp
      ultimately show ?thesis
        using c inreg True by simp
    next
      case False
      then have "\<not> (nat (?d Vertical) \<le> i \<and> i < nat (?d Vertical) + nrows ?v
                   \<and> nat (?d Horizontal) \<le> j \<and> j < nat (?d Horizontal) + ncols ?v)"
        using cond_v cond_h by blast
      then have "cell out i j = cell ?z i j" using c by auto
      also have "\<dots> = 0" using ij by (simp add: cell_zeros)
      finally have "cell out i j = 0" .
      then show ?thesis using False by (simp only: if_False)
    qed
  qed
  show ?thesis
    using ms sh_out content
    by (intro exI [of _ out]) (simp add: set_center_maintain_size_whole)
qed

end
